theory Spec2Isabelle
  imports Complex_Main "HOL-Library.Sublist"
begin

section \<open>Data model (types.ts and the frame literals of App.tsx)\<close>

text \<open>
  Where the modelled code is: the application component (startExtraction, processFrameAI,
  handleEnhanceSelection, handleSaveVersion, handleBatchEnhance, toggleFrameSelection) is
  the file src/unnamed/part_001; exportProjectToZip is the first part of
  src/services/exportService.ts; the analysis and enhancement service with callWithRetry
  is the last part of that same file (the earlier versions of the service, in
  src/services/geminiService.ts, have no retry).

  The enums of types.ts are string enums; each constructor below stands for the enum
  member of the same name, and the \<open>_str\<close> functions give the string the member holds.
\<close>

datatype FrameQuality = FAIR | GOOD | EXCELLENT | PENDING

datatype ShotType = POSE | CANDID | UNKNOWN

datatype EnhancementType = RESTORE | UNBLUR | REMOVE_BG | CINEMATIC | BOKEH

fun FrameQuality_str :: "FrameQuality \<Rightarrow> string" where
  "FrameQuality_str FAIR = ''Fair''"
| "FrameQuality_str GOOD = ''Good''"
| "FrameQuality_str EXCELLENT = ''Excellent''"
| "FrameQuality_str PENDING = ''Pending''"

fun ShotType_str :: "ShotType \<Rightarrow> string" where
  "ShotType_str POSE = ''Pose''"
| "ShotType_str CANDID = ''Candid''"
| "ShotType_str UNKNOWN = ''Unknown''"

fun EnhancementType_str :: "EnhancementType \<Rightarrow> string" where
  "EnhancementType_str RESTORE = ''Restore (Standard)''"
| "EnhancementType_str UNBLUR = ''Unblur & Sharpen''"
| "EnhancementType_str REMOVE_BG = ''Remove Background''"
| "EnhancementType_str CINEMATIC = ''Cinematic Lighting''"
| "EnhancementType_str BOKEH = ''Portrait Bokeh''"

text \<open>
  AIAnalysis as it exists at run time. The interface declares \<open>quality\<close>,
  \<open>qualityReason\<close> and \<open>shotType\<close> as always present, but analyzeFrameWithGemini fills
  them with unchecked reads of the parsed response (\<open>json.quality as FrameQuality\<close>), so
  each can be \<open>undefined\<close>: that is \<open>None\<close> here. A number held in a record field is
  given by its exact value, a rational; the arithmetic of the scan, which computes with
  such numbers, is modelled in doubles further down.
\<close>

record AIAnalysis =
  quality :: "FrameQuality option"
  qualityReason :: "string option"
  people :: "string list"
  shotType :: "ShotType option"
  tags :: "string list"
  compositionScore :: rat
  technicalAdvice :: string
  subjectId :: "string option"

text \<open>
  VideoFrame. The field \<open>id\<close> is called \<open>frame_id\<close> (\<open>id\<close> is the identity function of
  HOL). The optional fields \<open>enhancedUrl\<close>, \<open>isEnhancing\<close> and \<open>appliedEnhancements\<close>
  are options, \<open>None\<close> for \<open>undefined\<close>.
\<close>

record VideoFrame =
  frame_id :: string
  timestamp :: rat
  imageUrl :: string
  analysis :: "AIAnalysis option"
  isSelected :: bool
  isProcessing :: bool
  enhancedUrl :: "string option"
  isEnhancing :: "bool option"
  appliedEnhancements :: "string list option"

text \<open>An error value as the retry helper inspects it: \<open>status\<close>, \<open>code\<close>, \<open>message\<close>.\<close>

record js_error =
  err_status :: "int option"
  err_code :: "int option"
  err_message :: "string option"

section \<open>The frame store: the \<open>frames\<close> state of App and its updates by id\<close>

text \<open>
  Every write of App.tsx to one frame has the shape
  \<open>setFrames(curr => curr.map(f => f.id === id ? patch(f) : f))\<close>.
\<close>

definition updateFrame :: "string \<Rightarrow> (VideoFrame \<Rightarrow> VideoFrame) \<Rightarrow> VideoFrame list \<Rightarrow> VideoFrame list" where
  "updateFrame fid patch cur = map (\<lambda>f. if frame_id f = fid then patch f else f) cur"

text \<open>toggleFrameSelection and clearSelection.\<close>

definition toggleFrameSelection :: "string \<Rightarrow> VideoFrame list \<Rightarrow> VideoFrame list" where
  "toggleFrameSelection fid current = updateFrame fid (\<lambda>f. f\<lparr>isSelected := \<not> isSelected f\<rparr>) current"

definition clearSelection :: "VideoFrame list \<Rightarrow> VideoFrame list" where
  "clearSelection current = map (\<lambda>f. f\<lparr>isSelected := False\<rparr>) current"

section \<open>geminiService.ts: retry helper\<close>

text \<open>
  \<open>str_includes s t\<close> is \<open>s.includes(t)\<close>: \<open>t\<close> occurs in \<open>s\<close> as a contiguous substring.
\<close>

fun str_includes :: "string \<Rightarrow> string \<Rightarrow> bool" where
  "str_includes [] t = (t = [])"
| "str_includes (c # cs) t = (prefix t (c # cs) \<or> str_includes cs t)"

text \<open>
  What a run of callWithRetry did besides returning: how many times it invoked \<open>fn\<close>, and
  the delays (milliseconds) it slept, in order.
\<close>

record retry_log =
  calls :: nat
  waits :: "nat list"

definition isRateLimit :: "js_error \<Rightarrow> bool" where
  "isRateLimit error \<longleftrightarrow>
     err_status error = Some 429 \<or> err_code error = Some 429 \<or>
     (case err_message error of None \<Rightarrow> False | Some m \<Rightarrow> str_includes m ''429'')"

definition isServerOverload :: "js_error \<Rightarrow> bool" where
  "isServerOverload error \<longleftrightarrow> err_status error = Some 503 \<or> err_code error = Some 503"

text \<open>
  callWithRetry. \<open>fn\<close> is invoked once per attempt; \<open>fn k\<close> is what its invocation number
  \<open>k\<close> (from 0) settles with, \<open>Inl\<close> a rejection and \<open>Inr\<close> a value. A rejection is the
  function's own \<open>throw error\<close>.
\<close>

fun callWithRetry ::
  "(nat \<Rightarrow> js_error + 'a) \<Rightarrow> nat \<Rightarrow> nat \<Rightarrow> retry_log \<Rightarrow> (js_error + 'a) \<times> retry_log" where
  "callWithRetry fn retries delay lg =
     (case fn (calls lg) of
        Inr v \<Rightarrow> (Inr v, lg\<lparr>calls := Suc (calls lg)\<rparr>)
      | Inl error \<Rightarrow>
          if (isRateLimit error \<or> isServerOverload error) \<and> retries > 0
          then callWithRetry fn (retries - 1) (delay * 2)
                 \<lparr>calls = Suc (calls lg), waits = waits lg @ [delay]\<rparr>
          else (Inl error, lg\<lparr>calls := Suc (calls lg)\<rparr>))"

declare callWithRetry.simps [simp del]

definition log0 :: retry_log where
  "log0 = \<lparr>calls = 0, waits = []\<rparr>"

text \<open>The regular expression \<open>/^data:image\/(png|jpeg|jpg);base64,/\<close> replaced by the empty string.\<close>

definition stripDataUrlHeader :: "string \<Rightarrow> string" where
  "stripDataUrlHeader s =
     (if prefix ''data:image/png;base64,'' s then drop (length ''data:image/png;base64,'') s
      else if prefix ''data:image/jpeg;base64,'' s then drop (length ''data:image/jpeg;base64,'') s
      else if prefix ''data:image/jpg;base64,'' s then drop (length ''data:image/jpg;base64,'') s
      else s)"

section \<open>geminiService.ts: analyzeFrameWithGemini\<close>

text \<open>
  The object \<open>JSON.parse\<close> returns, read through the eight properties the function reads.
  A property that is absent reads as \<open>undefined\<close> (\<open>None\<close>); one that is present is taken
  to hold a value of the type the response schema gives it.
\<close>

record json_response =
  j_quality :: "FrameQuality option"
  j_qualityReason :: "string option"
  j_people :: "string list option"
  j_shotType :: "ShotType option"
  j_tags :: "string list option"
  j_compositionScore :: "rat option"
  j_technicalAdvice :: "string option"
  j_subjectId :: "string option"

text \<open>
  What one request to the analysis model comes back with: the call rejects with an error,
  the response has no text, the text is not JSON (the SyntaxError's message is carried),
  the text is the JSON \<open>null\<close>, or it parses to an object.
\<close>

datatype api_outcome =
    Throws js_error
  | NoText
  | BadJson string
  | JsonNull
  | Parsed json_response

definition plain_error :: "string \<Rightarrow> js_error" where
  "plain_error m = \<lparr>err_status = None, err_code = None, err_message = Some m\<rparr>"

definition fallback_analysis :: AIAnalysis where
  "fallback_analysis =
     \<lparr>quality = Some FAIR, qualityReason = Some ''AI Analysis Failed'', people = [],
      shotType = Some UNKNOWN, tags = [], compositionScore = 0,
      technicalAdvice = ''Retry analysis'', subjectId = None\<rparr>"

text \<open>The object literal returned after \<open>JSON.parse\<close>; \<open>x || d\<close> takes \<open>d\<close> when \<open>x\<close> is falsy.\<close>

definition analysis_of_json :: "json_response \<Rightarrow> AIAnalysis" where
  "analysis_of_json json =
     \<lparr>quality = j_quality json,
      qualityReason = j_qualityReason json,
      people = (case j_people json of None \<Rightarrow> [] | Some p \<Rightarrow> p),
      shotType = j_shotType json,
      tags = (case j_tags json of None \<Rightarrow> [] | Some t \<Rightarrow> t),
      compositionScore = (case j_compositionScore json of None \<Rightarrow> 5 | Some c \<Rightarrow> if c = 0 then 5 else c),
      technicalAdvice =
        (case j_technicalAdvice json of None \<Rightarrow> ''No advice available''
         | Some a \<Rightarrow> if a = [] then ''No advice available'' else a),
      subjectId = j_subjectId json\<rparr>"

text \<open>The body of the inner \<open>try\<close>: \<open>Inl\<close> is what it throws into the \<open>catch\<close>.\<close>

definition analyze_try :: "bool \<Rightarrow> api_outcome \<Rightarrow> js_error + AIAnalysis" where
  "analyze_try apiKey out =
     (if \<not> apiKey then Inl (plain_error ''API Key not found'')
      else case out of
        Throws e \<Rightarrow> Inl e
      | NoText \<Rightarrow> Inl (plain_error ''No response from AI'')
      | BadJson m \<Rightarrow> Inl (plain_error m)
      | JsonNull \<Rightarrow> Inl (plain_error ''Cannot read properties of null (reading 'quality')'')
      | Parsed json \<Rightarrow> Inr (analysis_of_json json))"

text \<open>One invocation of the function passed to callWithRetry: the \<open>try\<close> and its \<open>catch\<close>.\<close>

definition analyze_attempt :: "bool \<Rightarrow> api_outcome \<Rightarrow> js_error + AIAnalysis" where
  "analyze_attempt apiKey out =
     (case analyze_try apiKey out of
        Inr a \<Rightarrow> Inr a
      | Inl error \<Rightarrow> if err_status error = Some 429 then Inl error else Inr fallback_analysis)"

text \<open>
  \<open>apiKey\<close> says whether \<open>process.env.API_KEY\<close> is set; \<open>api img k\<close> is the outcome of the
  request number \<open>k\<close> made for the image data \<open>img\<close>.
\<close>

definition analyzeFrameWithGemini ::
  "bool \<Rightarrow> (string \<Rightarrow> nat \<Rightarrow> api_outcome) \<Rightarrow> string \<Rightarrow> (js_error + AIAnalysis) \<times> retry_log" where
  "analyzeFrameWithGemini apiKey api base64Image =
     (let cleanBase64 = stripDataUrlHeader base64Image
      in callWithRetry (\<lambda>k. analyze_attempt apiKey (api cleanBase64 k)) 3 2000 log0)"

section \<open>processFrameAI: writing an analysis outcome into the store\<close>

text \<open>
  \<open>processFrameAI_resolve r frame currentFrames\<close> is the store after the promise of
  analyzeFrameWithGemini settles with \<open>r\<close>: \<open>Inr result\<close> when it resolves (the \<open>try\<close>
  branch), \<open>Inl e\<close> when it rejects (the \<open>catch\<close> branch). \<open>currentFrames\<close> is the store
  at that moment, as the functional form of \<open>setFrames\<close> receives it.
\<close>

definition processFrameAI_resolve ::
  "js_error + AIAnalysis \<Rightarrow> VideoFrame \<Rightarrow> VideoFrame list \<Rightarrow> VideoFrame list" where
  "processFrameAI_resolve r frame currentFrames =
     (case r of
        Inr result \<Rightarrow>
          updateFrame (frame_id frame)
            (\<lambda>f. let shouldAutoSelect = (quality result = Some EXCELLENT)
                 in f\<lparr>analysis := Some result, isProcessing := False, isSelected := shouldAutoSelect\<rparr>)
            currentFrames
      | Inl e \<Rightarrow>
          updateFrame (frame_id frame) (\<lambda>f. f\<lparr>isProcessing := False\<rparr>) currentFrames)"

text \<open>processFrameAI with no other store update between its call and its settling.\<close>

definition processFrameAI ::
  "bool \<Rightarrow> (string \<Rightarrow> nat \<Rightarrow> api_outcome) \<Rightarrow> VideoFrame \<Rightarrow> VideoFrame list \<Rightarrow> VideoFrame list" where
  "processFrameAI apiKey api frame currentFrames =
     processFrameAI_resolve (fst (analyzeFrameWithGemini apiKey api (imageUrl frame))) frame currentFrames"

section \<open>geminiService.ts: enhanceFrameWithGemini\<close>

text \<open>
  What one request to the image model comes back with: the call rejects, or it answers
  with the parts of the first candidate (the empty list when there is no candidate or no
  content), each part given by the data of its \<open>inlineData\<close>, \<open>None\<close> when it has none.
\<close>

datatype enh_outcome =
    EThrows js_error
  | EParts "string option list"

text \<open>
  The request: the image data, the advice and the styles. The prompt text is built from
  the advice and the styles alone, so an outcome that depends on the request depends on
  these three.
\<close>

record enh_request =
  req_image :: string
  req_advice :: string
  req_types :: "EnhancementType list"

text \<open>The loop over the parts: the first part with \<open>inlineData\<close> is returned as a data URL.\<close>

fun first_inline_image :: "string option list \<Rightarrow> string option" where
  "first_inline_image [] = None"
| "first_inline_image (None # parts) = first_inline_image parts"
| "first_inline_image (Some d # parts) = Some (''data:image/png;base64,'' @ d)"

definition enhance_try :: "bool \<Rightarrow> enh_outcome \<Rightarrow> js_error + string option" where
  "enhance_try apiKey out =
     (if \<not> apiKey then Inl (plain_error ''API Key not found'')
      else case out of
        EThrows e \<Rightarrow> Inl e
      | EParts parts \<Rightarrow> Inr (first_inline_image parts))"

definition enhance_attempt :: "bool \<Rightarrow> enh_outcome \<Rightarrow> js_error + string option" where
  "enhance_attempt apiKey out =
     (case enhance_try apiKey out of
        Inr r \<Rightarrow> Inr r
      | Inl error \<Rightarrow> if err_status error = Some 429 then Inl error else Inr None)"

definition enhanceFrameWithGemini ::
  "bool \<Rightarrow> (enh_request \<Rightarrow> nat \<Rightarrow> enh_outcome) \<Rightarrow> string \<Rightarrow> string \<Rightarrow> EnhancementType list
     \<Rightarrow> (js_error + string option) \<times> retry_log" where
  "enhanceFrameWithGemini apiKey api base64Image advice types =
     (let cleanBase64 = stripDataUrlHeader base64Image;
          req = \<lparr>req_image = cleanBase64, req_advice = advice, req_types = types\<rparr>
      in callWithRetry (\<lambda>k. enhance_attempt apiKey (api req k)) 3 2000 log0)"

section \<open>App.tsx: handleEnhanceSelection and handleBatchEnhance\<close>

text \<open>\<open>x || undefined\<close> on a string or null: the empty string and null both give undefined.\<close>

definition or_undefined :: "string option \<Rightarrow> string option" where
  "or_undefined x = (case x of None \<Rightarrow> None | Some s \<Rightarrow> if s = [] then None else Some s)"

text \<open>\<open>f.appliedEnhancements || []\<close>.\<close>

definition applied_or_empty :: "VideoFrame \<Rightarrow> string list" where
  "applied_or_empty f = (case appliedEnhancements f of None \<Rightarrow> [] | Some xs \<Rightarrow> xs)"

text \<open>\<open>f.analysis ? { ...f.analysis, quality: FrameQuality.EXCELLENT } : null\<close>.\<close>

definition force_excellent :: "AIAnalysis option \<Rightarrow> AIAnalysis option" where
  "force_excellent a = (case a of None \<Rightarrow> None | Some x \<Rightarrow> Some (x\<lparr>quality := Some EXCELLENT\<rparr>))"

text \<open>The first \<open>setFrames\<close> of handleEnhanceSelection.\<close>

definition handleEnhanceSelection_begin :: "VideoFrame \<Rightarrow> VideoFrame list \<Rightarrow> VideoFrame list" where
  "handleEnhanceSelection_begin frame cur = updateFrame (frame_id frame) (\<lambda>f. f\<lparr>isEnhancing := Some True\<rparr>) cur"

text \<open>
  The store after the promise of enhanceFrameWithGemini settles with \<open>r\<close>: the \<open>try\<close>
  branch for \<open>Inr enhancedBase64\<close>, the \<open>catch\<close> branch for \<open>Inl error\<close>.
\<close>

definition handleEnhanceSelection_resolve ::
  "js_error + string option \<Rightarrow> VideoFrame \<Rightarrow> EnhancementType list \<Rightarrow> VideoFrame list \<Rightarrow> VideoFrame list" where
  "handleEnhanceSelection_resolve r frame types cur =
     (case r of
        Inr enhancedBase64 \<Rightarrow>
          updateFrame (frame_id frame)
            (\<lambda>f. f\<lparr>isEnhancing := Some False,
                    enhancedUrl := or_undefined enhancedBase64,
                    isSelected := True,
                    appliedEnhancements := Some (applied_or_empty f @ map EnhancementType_str types),
                    analysis := force_excellent (analysis f)\<rparr>)
            cur
      | Inl error \<Rightarrow>
          updateFrame (frame_id frame) (\<lambda>f. f\<lparr>isEnhancing := Some False\<rparr>) cur)"

definition handleEnhanceSelection ::
  "bool \<Rightarrow> (enh_request \<Rightarrow> nat \<Rightarrow> enh_outcome) \<Rightarrow> VideoFrame \<Rightarrow> string \<Rightarrow> EnhancementType list
     \<Rightarrow> VideoFrame list \<Rightarrow> VideoFrame list" where
  "handleEnhanceSelection apiKey api frame advice types cur =
     handleEnhanceSelection_resolve
       (fst (enhanceFrameWithGemini apiKey api (imageUrl frame) advice types)) frame types
       (handleEnhanceSelection_begin frame cur)"

text \<open>The \<open>setFrames\<close> of the batch loop after one frame's promise settles with \<open>r\<close>.\<close>

definition batch_resolve ::
  "js_error + string option \<Rightarrow> VideoFrame \<Rightarrow> EnhancementType \<Rightarrow> VideoFrame list \<Rightarrow> VideoFrame list" where
  "batch_resolve r frame type cur =
     (case r of
        Inr enhancedBase64 \<Rightarrow>
          updateFrame (frame_id frame)
            (\<lambda>f. f\<lparr>isEnhancing := Some False,
                    enhancedUrl := or_undefined enhancedBase64,
                    analysis := force_excellent (analysis f),
                    appliedEnhancements := Some (applied_or_empty f @ [EnhancementType_str type])\<rparr>)
            cur
      | Inl e \<Rightarrow>
          updateFrame (frame_id frame) (\<lambda>f. f\<lparr>isEnhancing := Some False\<rparr>) cur)"

text \<open>One iteration of \<open>for (const frame of selectedFrames)\<close>.\<close>

definition batch_step ::
  "bool \<Rightarrow> (enh_request \<Rightarrow> nat \<Rightarrow> enh_outcome) \<Rightarrow> EnhancementType \<Rightarrow> VideoFrame list \<Rightarrow> VideoFrame
     \<Rightarrow> VideoFrame list" where
  "batch_step apiKey api type cur frame =
     (case analysis frame of
        None \<Rightarrow> cur
      | Some a \<Rightarrow>
          batch_resolve (fst (enhanceFrameWithGemini apiKey api (imageUrl frame) (technicalAdvice a) [type]))
            frame type cur)"

text \<open>
  handleBatchEnhance on the store \<open>frames\<close>; \<open>selectedFrames\<close> is the memoised
  \<open>frames.filter(f => f.isSelected)\<close> of the render the handler was created in.
\<close>

definition handleBatchEnhance ::
  "bool \<Rightarrow> (enh_request \<Rightarrow> nat \<Rightarrow> enh_outcome) \<Rightarrow> EnhancementType \<Rightarrow> VideoFrame list \<Rightarrow> VideoFrame list" where
  "handleBatchEnhance apiKey api type frames =
     (let selectedFrames = filter isSelected frames;
          targetIds = map frame_id selectedFrames;
          started = map (\<lambda>f. if frame_id f \<in> set targetIds then f\<lparr>isEnhancing := Some True\<rparr> else f) frames
      in foldl (batch_step apiKey api type) started selectedFrames)"

section \<open>JavaScript numbers\<close>

text \<open>
  A number the scan computes with is an IEEE 754 double: a finite value (given by the
  rational it denotes; the two zeros are not told apart), an infinity, or NaN.
\<close>

datatype jsnum = Fin rat | PInf | NInf | NaN

text \<open>The integer nearest to a rational, the even one when two are equally near.\<close>

definition round_half_even :: "rat \<Rightarrow> int" where
  "round_half_even x =
     (let f = \<lfloor>x\<rfloor>; d = x - of_int f
      in if d < 1 / 2 then f else if 1 / 2 < d then f + 1 else if even f then f else f + 1)"

text \<open>
  Doubles are the multiples of \<open>2^-1074\<close> that need at most 53 significant bits. For a
  magnitude given in units of \<open>2^-1074\<close>, \<open>ulp_exp\<close> is the number of low bits the format
  drops: none below \<open>2^53\<close> units, one more for each further doubling.
\<close>

function ulp_exp :: "int \<Rightarrow> nat" where
  "ulp_exp n = (if n < 2 ^ 53 then 0 else Suc (ulp_exp (n div 2)))"
  by pat_completeness auto
termination
  by (relation "measure nat") auto

declare ulp_exp.simps [simp del]

text \<open>Rounding a magnitude in units of \<open>2^-1074\<close> to a representable number of units.\<close>

definition round_scaled :: "rat \<Rightarrow> int" where
  "round_scaled y = (let k = ulp_exp \<lfloor>y\<rfloor> in round_half_even (y / 2 ^ k) * 2 ^ k)"

definition subnormal_scale :: rat where
  "subnormal_scale = 2 ^ 1074"

text \<open>
  The double nearest to a rational, ties to even, with no bound on the exponent; and the
  result of an operation whose exact value is \<open>x\<close>: that double, or an infinity when it
  lies beyond the largest finite double.
\<close>

definition round_double :: "rat \<Rightarrow> rat" where
  "round_double x =
     (let r = of_int (round_scaled (\<bar>x\<bar> * subnormal_scale)) / subnormal_scale
      in if x < 0 then - r else r)"

definition double_limit :: rat where
  "double_limit = 2 ^ 1024"

definition to_double :: "rat \<Rightarrow> jsnum" where
  "to_double x =
     (let r = round_double x
      in if double_limit \<le> r then PInf else if r \<le> - double_limit then NInf else Fin r)"

text \<open>A value of the model that is a double: a finite one is representable and in range.\<close>

definition is_jsnum :: "jsnum \<Rightarrow> bool" where
  "is_jsnum x = (case x of Fin r \<Rightarrow> round_double r = r \<and> \<bar>r\<bar> < double_limit | _ \<Rightarrow> True)"

text \<open>The operators \<open>+\<close>, \<open>*\<close>, \<open>/ 2\<close>, \<open><\<close> and \<open><=\<close> on numbers, and \<open>Math.max\<close> of two.\<close>

fun jadd :: "jsnum \<Rightarrow> jsnum \<Rightarrow> jsnum" where
  "jadd (Fin a) (Fin b) = to_double (a + b)"
| "jadd NaN _ = NaN"
| "jadd _ NaN = NaN"
| "jadd PInf NInf = NaN"
| "jadd NInf PInf = NaN"
| "jadd PInf _ = PInf"
| "jadd _ PInf = PInf"
| "jadd NInf _ = NInf"
| "jadd _ NInf = NInf"

fun jmul :: "jsnum \<Rightarrow> jsnum \<Rightarrow> jsnum" where
  "jmul (Fin a) (Fin b) = to_double (a * b)"
| "jmul NaN _ = NaN"
| "jmul _ NaN = NaN"
| "jmul (Fin a) PInf = (if a = 0 then NaN else if 0 < a then PInf else NInf)"
| "jmul (Fin a) NInf = (if a = 0 then NaN else if 0 < a then NInf else PInf)"
| "jmul PInf (Fin b) = (if b = 0 then NaN else if 0 < b then PInf else NInf)"
| "jmul NInf (Fin b) = (if b = 0 then NaN else if 0 < b then NInf else PInf)"
| "jmul PInf PInf = PInf"
| "jmul NInf NInf = PInf"
| "jmul PInf NInf = NInf"
| "jmul NInf PInf = NInf"

definition jdiv2 :: "jsnum \<Rightarrow> jsnum" where
  "jdiv2 x = (case x of Fin a \<Rightarrow> to_double (a / 2) | _ \<Rightarrow> x)"

fun jlt :: "jsnum \<Rightarrow> jsnum \<Rightarrow> bool" where
  "jlt (Fin a) (Fin b) = (a < b)"
| "jlt NaN _ = False"
| "jlt _ NaN = False"
| "jlt PInf _ = False"
| "jlt _ NInf = False"
| "jlt _ PInf = True"
| "jlt NInf _ = True"

fun jle :: "jsnum \<Rightarrow> jsnum \<Rightarrow> bool" where
  "jle (Fin a) (Fin b) = (a \<le> b)"
| "jle NaN _ = False"
| "jle _ NaN = False"
| "jle NInf _ = True"
| "jle _ PInf = True"
| "jle PInf _ = False"
| "jle _ NInf = False"

definition Math_max :: "jsnum \<Rightarrow> jsnum \<Rightarrow> jsnum" where
  "Math_max a b = (if a = NaN \<or> b = NaN then NaN else if jlt a b then b else a)"

text \<open>
  The value a frame record holds for a number. The record keeps finite numbers; the scan
  stores its current time only after \<open>currentTime < endTime\<close> held, which NaN and
  +Infinity never pass, and startExtraction never tests -Infinity against a larger end.
\<close>

fun num_val :: "jsnum \<Rightarrow> rat" where
  "num_val (Fin r) = r"
| "num_val _ = 0"

section \<open>App.tsx: startExtraction\<close>

datatype ScanRange = Full | First_half | Second_half | Q1 | Q2 | Q3 | Q4

text \<open>ScanSettings; the field \<open>range\<close> is called \<open>scan_range\<close> here.\<close>

record ScanSettings =
  scan_range :: ScanRange
  interval :: jsnum

text \<open>
  The \<open>switch\<close> on \<open>scanSettings.range\<close>: the pair \<open>(startTime, endTime)\<close>. The
  constants 0.25, 0.5 and 0.75 are doubles exactly.
\<close>

definition resolve_range :: "ScanRange \<Rightarrow> jsnum \<Rightarrow> jsnum \<times> jsnum" where
  "resolve_range r duration =
     (case r of
        First_half \<Rightarrow> (Fin 0, jdiv2 duration)
      | Second_half \<Rightarrow> (jdiv2 duration, duration)
      | Q1 \<Rightarrow> (Fin 0, jmul duration (Fin (1 / 4)))
      | Q2 \<Rightarrow> (jmul duration (Fin (1 / 4)), jmul duration (Fin (1 / 2)))
      | Q3 \<Rightarrow> (jmul duration (Fin (1 / 2)), jmul duration (Fin (3 / 4)))
      | Q4 \<Rightarrow> (jmul duration (Fin (3 / 4)), duration)
      | Full \<Rightarrow> (Fin 0, duration))"

definition maxFrames :: nat where
  "maxFrames = 50"

text \<open>The frame literal of the loop body.\<close>

definition newFrame :: "string \<Rightarrow> rat \<Rightarrow> string \<Rightarrow> VideoFrame" where
  "newFrame uuid currentTime url =
     \<lparr>frame_id = uuid, timestamp = currentTime, imageUrl = url, analysis = None,
      isSelected = False, isProcessing = True, enhancedUrl = None, isEnhancing = None,
      appliedEnhancements = Some []\<rparr>"

text \<open>
  The \<open>while\<close> loop. \<open>uuid n\<close> is what the call number \<open>n\<close> of \<open>crypto.randomUUID()\<close>
  returns and \<open>capture t\<close> the data URL of the canvas after seeking to \<open>t\<close>. Each pass
  appends its frame to the store and advances the current time by a double addition. The
  analysis started for the frame settles later and rewrites frames in place, so it
  changes neither the number of frames nor a timestamp.
\<close>

function scan_loop ::
  "(nat \<Rightarrow> string) \<Rightarrow> (rat \<Rightarrow> string) \<Rightarrow> jsnum \<Rightarrow> jsnum \<Rightarrow> jsnum \<Rightarrow> nat \<Rightarrow> VideoFrame list
     \<Rightarrow> VideoFrame list" where
  "scan_loop uuid capture endTime ival currentTime count frames =
     (if jlt currentTime endTime \<and> count < maxFrames
      then scan_loop uuid capture endTime ival (jadd currentTime ival) (count + 1)
             (frames @ [newFrame (uuid count) (num_val currentTime) (capture (num_val currentTime))])
      else frames)"
  by pat_completeness auto
termination
  by (relation "measure (\<lambda>(uuid, capture, endTime, ival, currentTime, count, frames). maxFrames - count)")
    auto

declare scan_loop.simps [simp del]

text \<open>
  startExtraction on the store \<open>frames\<close>. \<open>ready\<close> says that the video element, the
  canvas and its 2d context exist; \<open>videoUrl\<close> is the state of that name; \<open>duration\<close> is
  \<open>video.duration\<close>. The early returns leave the store as it is.
\<close>

definition startExtraction ::
  "bool \<Rightarrow> string option \<Rightarrow> (nat \<Rightarrow> string) \<Rightarrow> (rat \<Rightarrow> string) \<Rightarrow> jsnum \<Rightarrow> ScanSettings
     \<Rightarrow> VideoFrame list \<Rightarrow> VideoFrame list" where
  "startExtraction ready videoUrl uuid capture duration scanSettings frames =
     (if \<not> ready then frames
      else if videoUrl = Some ''restored'' then frames
      else
        let (startTime, endTime) = resolve_range (scan_range scanSettings) duration;
            ival = Math_max (Fin 1) (interval scanSettings)
        in scan_loop uuid capture endTime ival startTime 0 frames)"

section \<open>exportService.ts: exportProjectToZip\<close>

text \<open>The values a manifest entry holds; \<open>JUndefined\<close> is what \<open>f.analysis?.x\<close> gives without analysis.\<close>

datatype jsval =
    JUndefined
  | JString string
  | JNumber rat
  | JBool bool
  | JStringList "string list"

text \<open>\<open>f.analysis?.x\<close> wrapped as a value.\<close>

definition opt_field :: "VideoFrame \<Rightarrow> (AIAnalysis \<Rightarrow> jsval) \<Rightarrow> jsval" where
  "opt_field f rd = (case analysis f of None \<Rightarrow> JUndefined | Some a \<Rightarrow> rd a)"

definition opt_str :: "string option \<Rightarrow> jsval" where
  "opt_str x = (case x of None \<Rightarrow> JUndefined | Some s \<Rightarrow> JString s)"

text \<open>The truthiness of \<open>f.enhancedUrl\<close>: present and not the empty string.\<close>

definition has_enhanced :: "VideoFrame \<Rightarrow> bool" where
  "has_enhanced f = (case enhancedUrl f of None \<Rightarrow> False | Some u \<Rightarrow> u \<noteq> [])"

text \<open>The object literal of the manifest, property by property, in the order written.\<close>

definition manifest_entry :: "VideoFrame \<Rightarrow> (string \<times> jsval) list" where
  "manifest_entry f =
     [(''id'', JString (frame_id f)),
      (''timestamp'', JNumber (timestamp f)),
      (''quality'', opt_field f (\<lambda>a. opt_str (map_option FrameQuality_str (quality a)))),
      (''score'', opt_field f (\<lambda>a. JNumber (compositionScore a))),
      (''tags'', opt_field f (\<lambda>a. JStringList (tags a))),
      (''advice'', opt_field f (\<lambda>a. JString (technicalAdvice a))),
      (''people'', opt_field f (\<lambda>a. JStringList (people a))),
      (''shotType'', opt_field f (\<lambda>a. opt_str (map_option ShotType_str (shotType a)))),
      (''isEnhanced'', JBool (has_enhanced f))]"

text \<open>\<open>JSON.stringify\<close> leaves out a property whose value is undefined.\<close>

definition stringify_entry :: "(string \<times> jsval) list \<Rightarrow> (string \<times> jsval) list" where
  "stringify_entry e = filter (\<lambda>(k, v). v \<noteq> JUndefined) e"

text \<open>Decimal digits of a natural number.\<close>

definition digit_char :: "nat \<Rightarrow> char" where
  "digit_char d = ''0123456789'' ! d"

fun nat_digits :: "nat \<Rightarrow> string" where
  "nat_digits n = (if n < 10 then [digit_char n] else nat_digits (n div 10) @ [digit_char (n mod 10)])"

declare nat_digits.simps [simp del]

text \<open>
  \<open>Number.prototype.toFixed(2)\<close> on an exact value: the sign, then the integer \<open>n\<close>
  nearest to \<open>100 * |x|\<close> (the larger one on a tie) printed with a point before its last
  two digits. From \<open>10^21\<close> on JavaScript prints the number as \<open>String(x)\<close> does; that
  printer is the parameter \<open>numToString\<close>.
\<close>

definition toFixed2 :: "(rat \<Rightarrow> string) \<Rightarrow> rat \<Rightarrow> string" where
  "toFixed2 numToString x =
     (let s = (if x < 0 then ''-'' else []);
          y = \<bar>x\<bar>
      in if y \<ge> 10 ^ 21 then s @ numToString y
         else
           let n = nat \<lfloor>y * 100 + 1 / 2\<rfloor>;
               m = nat_digits n;
               m' = (if length m \<le> 2 then replicate (3 - length m) (CHR ''0'') @ m else m)
           in s @ take (length m' - 2) m' @ ''.'' @ drop (length m' - 2) m')"

text \<open>\<open>frame.enhancedUrl || frame.imageUrl\<close>, and the base64 data left after the header is removed.\<close>

definition imageData :: "VideoFrame \<Rightarrow> string" where
  "imageData frame =
     (case enhancedUrl frame of
        None \<Rightarrow> imageUrl frame
      | Some u \<Rightarrow> if u = [] then imageUrl frame else u)"

definition base64Data :: "VideoFrame \<Rightarrow> string" where
  "base64Data frame = stripDataUrlHeader (imageData frame)"

text \<open>\<open>frame.analysis?.quality || 'ungraded'\<close>.\<close>

definition quality_or_ungraded :: "VideoFrame \<Rightarrow> string" where
  "quality_or_ungraded frame =
     (case analysis frame of
        None \<Rightarrow> ''ungraded''
      | Some a \<Rightarrow> (case quality a of None \<Rightarrow> ''ungraded'' | Some q \<Rightarrow> FrameQuality_str q))"

definition filename :: "(rat \<Rightarrow> string) \<Rightarrow> VideoFrame \<Rightarrow> string" where
  "filename numToString frame =
     ''frame_'' @ toFixed2 numToString (timestamp frame) @ ''s_'' @ quality_or_ungraded frame @ ''.png''"

text \<open>
  The folder of the archive: the manifest as \<open>JSON.stringify\<close> writes it, the calls
  \<open>folder.file(filename, base64Data)\<close> of the \<open>forEach\<close> in order, and the image files
  the folder holds afterwards (a second write under a name replaces the first).
\<close>

record zip_folder =
  manifest_json :: "(string \<times> jsval) list list"
  image_writes :: "(string \<times> string) list"
  image_files :: "string \<rightharpoonup> string"

definition exportProjectToZip :: "(rat \<Rightarrow> string) \<Rightarrow> VideoFrame list \<Rightarrow> zip_folder" where
  "exportProjectToZip numToString frames =
     (let keepers = filter isSelected frames;
          manifest = map manifest_entry keepers;
          writes = map (\<lambda>frame. (filename numToString frame, base64Data frame)) keepers
      in \<lparr>manifest_json = map stringify_entry manifest,
          image_writes = writes,
          image_files = fold (\<lambda>(name, data) folder. folder(name \<mapsto> data)) writes Map.empty\<rparr>)"

section \<open>App.tsx: handleSaveVersion\<close>

text \<open>\<open>uuid\<close> is what \<open>crypto.randomUUID()\<close> returns; the new frame is put in front.\<close>

definition handleSaveVersion :: "string \<Rightarrow> VideoFrame \<Rightarrow> VideoFrame list \<Rightarrow> VideoFrame list" where
  "handleSaveVersion uuid frame prev =
     (case enhancedUrl frame of
        None \<Rightarrow> prev
      | Some u \<Rightarrow>
          if u = [] then prev
          else
            \<lparr>frame_id = uuid, timestamp = timestamp frame, imageUrl = u,
             analysis = force_excellent (analysis frame),
             isSelected = True, isProcessing = False, enhancedUrl = None,
             isEnhancing = Some False, appliedEnhancements = appliedEnhancements frame\<rparr> # prev)"

section \<open>Concrete inputs\<close>

text \<open>A frame as startExtraction creates it, a second one, and values the services can meet.\<close>

definition pending_frame :: VideoFrame where
  "pending_frame =
     \<lparr>frame_id = ''a'', timestamp = 0, imageUrl = ''data:image/jpeg;base64,AAAA'', analysis = None,
      isSelected = False, isProcessing = True, enhancedUrl = None, isEnhancing = None,
      appliedEnhancements = Some []\<rparr>"

definition other_frame :: VideoFrame where
  "other_frame = pending_frame\<lparr>frame_id := ''b'', timestamp := 3\<rparr>"

definition good_json :: json_response where
  "good_json =
     \<lparr>j_quality = Some GOOD, j_qualityReason = Some ''Usable'', j_people = None,
      j_shotType = Some POSE, j_tags = Some [''Beach''], j_compositionScore = Some 7,
      j_technicalAdvice = Some ''Crop tighter.'', j_subjectId = None\<rparr>"

definition error_429 :: js_error where
  "error_429 = \<lparr>err_status = Some 429, err_code = None, err_message = None\<rparr>"

definition error_503 :: js_error where
  "error_503 = \<lparr>err_status = Some 503, err_code = None, err_message = None\<rparr>"

text \<open>
  An analysed keeper that already carries an enhanced image, a keeper whose analysis never
  arrived, and a parsed response without \<open>quality\<close>.
\<close>

definition enhanced_frame :: VideoFrame where
  "enhanced_frame =
     \<lparr>frame_id = ''c'', timestamp = 6, imageUrl = ''data:image/jpeg;base64,CCCC'',
      analysis = Some (analysis_of_json good_json),
      isSelected = True, isProcessing = False, enhancedUrl = Some ''data:image/png;base64,OLD'',
      isEnhancing = Some False, appliedEnhancements = Some [''Cinematic Lighting'']\<rparr>"

definition unanalysed_keeper :: VideoFrame where
  "unanalysed_keeper = pending_frame\<lparr>isSelected := True, isProcessing := False\<rparr>"


text \<open>Identifiers, captured images and the printer of large numbers for the examples.\<close>

definition example_uuid :: "nat \<Rightarrow> string" where
  "example_uuid n = ''frame-'' @ nat_digits n"

definition example_capture :: "rat \<Rightarrow> string" where
  "example_capture t = ''data:image/jpeg;base64,AAAA''"

definition example_numToString :: "rat \<Rightarrow> string" where
  "example_numToString x = ''1e+21''"

definition example_store :: "VideoFrame list" where
  "example_store = [enhanced_frame, other_frame, unanalysed_keeper]"

text \<open>
  An analysed keeper before any enhancement, the store after it is enhanced once with an
  image returned, and the store after that enhanced version is saved as a frame of its own.
\<close>

definition analysed_keeper :: VideoFrame where
  "analysed_keeper = enhanced_frame\<lparr>enhancedUrl := None, appliedEnhancements := Some []\<rparr>"

definition enhanced_store :: "VideoFrame list" where
  "enhanced_store =
     handleEnhanceSelection True (\<lambda>req k. EParts [Some ''NEW'']) analysed_keeper ''Crop tighter.''
       [CINEMATIC] [analysed_keeper]"

definition saved_version_store :: "VideoFrame list" where
  "saved_version_store = handleSaveVersion ''d'' (hd enhanced_store) enhanced_store"

text \<open>
  The doubles nearest to 4.2, 2.1, 3.1 and 4.1, and the double that the sum of the last
  one and 1 rounds to.
\<close>

definition double_4_2 :: rat where
  "double_4_2 = 4728779608739021 / 2 ^ 50"

definition double_2_1 :: rat where
  "double_2_1 = 4728779608739021 / 2 ^ 51"

definition double_3_1 :: rat where
  "double_3_1 = 6980579422424269 / 2 ^ 51"

definition double_4_1 :: rat where
  "double_4_1 = 2308094809027379 / 2 ^ 49"

definition double_5_1 :: rat where
  "double_5_1 = 2871044762448691 / 2 ^ 49"

definition second_half_by_1 :: ScanSettings where
  "second_half_by_1 = \<lparr>scan_range = Second_half, interval = Fin 1\<rparr>"

definition third_quarter_by_1 :: ScanSettings where
  "third_quarter_by_1 = \<lparr>scan_range = Q3, interval = Fin 1\<rparr>"

section \<open>Properties\<close>

lemma updateFrame_absent:
  "fid \<notin> frame_id ` set cur \<Longrightarrow> updateFrame fid patch cur = cur"
  unfolding updateFrame_def by (induction cur) auto

lemmas svc_defs = analyzeFrameWithGemini_def enhanceFrameWithGemini_def callWithRetry.simps log0_def
  analyze_attempt_def analyze_try_def enhance_attempt_def enhance_try_def isRateLimit_def
  isServerOverload_def plain_error_def

lemma updateFrame_nth:
  "i < length cur \<Longrightarrow>
   updateFrame fid patch cur ! i = (if frame_id (cur ! i) = fid then patch (cur ! i) else cur ! i)"
  by (simp add: updateFrame_def)

subsection \<open>Auto-selection\<close>

text \<open>
  Counterexample to C1 as stated. The user selects a frame while its analysis is pending
  (toggleFrameSelection); the analysis then resolves with a successful verdict of quality
  Good. The claim says \<open>isSelected\<close> keeps its prior value \<open>true\<close>; processFrameAI writes
  \<open>isSelected: shouldAutoSelect\<close>, which is \<open>false\<close>.
\<close>

theorem autoselect_keeps_prior_counterexample:
  "isSelected (hd (toggleFrameSelection ''a'' [pending_frame]))
   \<and> fst (analyzeFrameWithGemini True (\<lambda>img k. Parsed good_json) (imageUrl pending_frame))
       = Inr (analysis_of_json good_json)
   \<and> quality (analysis_of_json good_json) = Some GOOD
   \<and> \<not> isSelected (hd (processFrameAI True (\<lambda>img k. Parsed good_json) pending_frame
                          (toggleFrameSelection ''a'' [pending_frame])))"
  by (simp add: toggleFrameSelection_def updateFrame_def pending_frame_def processFrameAI_def
      processFrameAI_resolve_def analyzeFrameWithGemini_def callWithRetry.simps log0_def
      analyze_attempt_def analyze_try_def analysis_of_json_def good_json_def)

text \<open>
  C1 (amended). When the analysis of a frame resolves with a verdict, every stored frame
  with that id gets \<open>isSelected\<close> equal to "the verdict's quality is Excellent": true for
  Excellent, false for Good and Fair whatever the flag was before. The degraded fallback
  (quality Fair) therefore leaves the frame unselected.
\<close>

theorem autoselect_follows_quality:
  assumes "i < length cur" and "frame_id (cur ! i) = frame_id frame"
  shows "(isSelected (processFrameAI_resolve (Inr result) frame cur ! i) \<longleftrightarrow> quality result = Some EXCELLENT)
       \<and> \<not> isSelected (processFrameAI_resolve (Inr fallback_analysis) frame cur ! i)"
  using assms
  by (simp add: processFrameAI_resolve_def updateFrame_nth fallback_analysis_def)

theorem autoselect_follows_quality_witness:
  "(0::nat) < length (toggleFrameSelection ''a'' [pending_frame])
   \<and> frame_id (toggleFrameSelection ''a'' [pending_frame] ! 0) = frame_id pending_frame
   \<and> (isSelected (processFrameAI_resolve (Inr (analysis_of_json good_json)) pending_frame
                    (toggleFrameSelection ''a'' [pending_frame]) ! 0)
        \<longleftrightarrow> quality (analysis_of_json good_json) = Some EXCELLENT)
   \<and> \<not> isSelected (processFrameAI_resolve (Inr fallback_analysis) pending_frame
                      (toggleFrameSelection ''a'' [pending_frame]) ! 0)"
proof -
  have h1: "(0::nat) < length (toggleFrameSelection ''a'' [pending_frame])"
    by (simp add: toggleFrameSelection_def updateFrame_def)
  have h2: "frame_id (toggleFrameSelection ''a'' [pending_frame] ! 0) = frame_id pending_frame"
    by (simp add: toggleFrameSelection_def updateFrame_def pending_frame_def)
  show ?thesis
    using h1 h2 autoselect_follows_quality [OF h1 h2, of "analysis_of_json good_json"]
    by simp
qed

subsection \<open>Updates addressed to an absent id\<close>

text \<open>
  C9. An update addressed to a frame id that no stored frame has leaves the store exactly
  as it was, every record and the order: the generic update by id, and the writes made
  when an analysis or an enhancement (single or batch) settles for that id, whatever the
  outcome.
\<close>

theorem update_absent_id_noop:
  assumes "frame_id frame \<notin> frame_id ` set cur"
  shows "updateFrame (frame_id frame) patch cur = cur
       \<and> processFrameAI_resolve r frame cur = cur
       \<and> handleEnhanceSelection_resolve r' frame types cur = cur
       \<and> batch_resolve r' frame type cur = cur"
  using assms
  by (simp add: processFrameAI_resolve_def handleEnhanceSelection_resolve_def batch_resolve_def
      updateFrame_absent split: sum.splits)

theorem update_absent_id_noop_witness:
  "frame_id pending_frame \<notin> frame_id ` set [other_frame]
   \<and> updateFrame (frame_id pending_frame) (\<lambda>f. f\<lparr>isSelected := True\<rparr>) [other_frame] = [other_frame]
   \<and> processFrameAI_resolve (Inr fallback_analysis) pending_frame [other_frame] = [other_frame]
   \<and> handleEnhanceSelection_resolve (Inr (Some ''data:image/png;base64,BBBB'')) pending_frame [BOKEH]
        [other_frame] = [other_frame]
   \<and> batch_resolve (Inr (Some ''data:image/png;base64,BBBB'')) pending_frame BOKEH [other_frame]
        = [other_frame]"
proof -
  have h: "frame_id pending_frame \<notin> frame_id ` set [other_frame]"
    by (simp add: pending_frame_def other_frame_def)
  show ?thesis
    using h update_absent_id_noop [OF h, of "\<lambda>f. f\<lparr>isSelected := True\<rparr>" "Inr fallback_analysis"
        "Inr (Some ''data:image/png;base64,BBBB'')" "[BOKEH]" BOKEH]
    by simp
qed

subsection \<open>Retry and backoff\<close>

text \<open>
  What callWithRetry does on the signal it does see. The inner \<open>catch\<close> of
  analyzeFrameWithGemini rethrows only an error whose \<open>status\<close> is 429; two such
  rejections followed by a parsed response give that response's analysis after waits of
  2000 ms and 4000 ms, and no run invokes the request more than \<open>retries + 1\<close> times.
\<close>

lemma rate_limit_status_retried:
  assumes "api (stripDataUrlHeader img) 0 = Throws e0" and "err_status e0 = Some 429"
      and "api (stripDataUrlHeader img) 1 = Throws e1" and "err_status e1 = Some 429"
      and "api (stripDataUrlHeader img) 2 = Parsed json"
  shows "analyzeFrameWithGemini True api img
           = (Inr (analysis_of_json json), \<lparr>calls = 3, waits = [2000, 4000]\<rparr>)"
  using assms by (simp add: svc_defs numeral_2_eq_2)

lemma callWithRetry_calls_bound:
  "calls (snd (callWithRetry fn retries delay lg)) \<le> calls lg + retries + 1"
proof (induction retries arbitrary: delay lg)
  case 0
  show ?case by (simp add: callWithRetry.simps split: sum.splits)
next
  case (Suc n)
  show ?case
    using Suc.IH [of "delay * 2" "\<lparr>calls = Suc (calls lg), waits = waits lg @ [delay]\<rparr>"]
    by (simp add: callWithRetry.simps [of fn "Suc n"] split: sum.splits)
qed

text \<open>
  C3. The claim: a capability that fails twice with a rate-limit or service-overload
  signal and succeeds on the third attempt yields the successful result after exactly two
  waits, 2 s then 4 s. Evaluated on a capability that answers 503 (service overloaded)
  twice and then a well-formed response: the inner \<open>catch\<close> turns the first 503 into the
  degraded fallback, so callWithRetry never sees it; one request is made, no wait is
  performed, and the fallback is returned instead of the successful result.
\<close>

theorem overload_signal_not_retried:
  "analyzeFrameWithGemini True (\<lambda>img k. if k < 2 then Throws error_503 else Parsed good_json)
     (imageUrl pending_frame) = (Inr fallback_analysis, \<lparr>calls = 1, waits = []\<rparr>)"
  by (simp add: svc_defs error_503_def)

text \<open>
  C4. The claim: when every attempt fails transiently, the frame's analysis resolves to the
  degraded fallback. Evaluated on a capability that answers status 429 to every request:
  four requests are made with waits of 2 s, 4 s and 8 s, analyzeFrameWithGemini rejects,
  and the \<open>catch\<close> of processFrameAI clears \<open>isProcessing\<close> only; the frame's analysis
  stays null.
\<close>

theorem exhausted_retries_leave_analysis_null:
  "analyzeFrameWithGemini True (\<lambda>img k. Throws error_429) (imageUrl pending_frame)
     = (Inl error_429, \<lparr>calls = 4, waits = [2000, 4000, 8000]\<rparr>)
   \<and> processFrameAI True (\<lambda>img k. Throws error_429) pending_frame [pending_frame]
     = [pending_frame\<lparr>isProcessing := False\<rparr>]
   \<and> analysis (hd (processFrameAI True (\<lambda>img k. Throws error_429) pending_frame [pending_frame])) = None"
  by (simp add: svc_defs error_429_def processFrameAI_def processFrameAI_resolve_def updateFrame_def
      pending_frame_def)

subsection \<open>Terminal failures and unvalidated responses\<close>




text \<open>
  The failures that do end in the fallback without a retry: no text, text that is not
  JSON, the JSON \<open>null\<close>, and a rejected request whose status is not 429.
\<close>

lemma terminal_failures_give_fallback:
  assumes "api (stripDataUrlHeader img) 0 = out"
      and "out = NoText \<or> (\<exists>m. out = BadJson m) \<or> out = JsonNull
           \<or> (\<exists>e. out = Throws e \<and> err_status e \<noteq> Some 429)"
  shows "analyzeFrameWithGemini True api img = (Inr fallback_analysis, \<lparr>calls = 1, waits = []\<rparr>)"
  using assms by (auto simp add: svc_defs)

subsection \<open>Enhancement\<close>

text \<open>
  C2. The claim: a failed enhancement, the "no image produced" result included, leaves
  \<open>enhancedUrl\<close>, \<open>appliedEnhancements\<close> and \<open>analysis\<close> as they were. Evaluated on a
  capability that answers with no image part: enhanceFrameWithGemini resolves with null,
  and both handlers take their success branch: the prior enhanced image is dropped, the
  style is appended to \<open>appliedEnhancements\<close> and the analysis quality is forced to
  Excellent.
\<close>

theorem enhance_no_image_mutates_frame:
  "fst (enhanceFrameWithGemini True (\<lambda>req k. EParts []) (imageUrl enhanced_frame) ''Crop tighter.'' [BOKEH])
     = Inr None
   \<and> handleEnhanceSelection True (\<lambda>req k. EParts []) enhanced_frame ''Crop tighter.'' [BOKEH] [enhanced_frame]
       = [enhanced_frame\<lparr>enhancedUrl := None,
            appliedEnhancements := Some [''Cinematic Lighting'', ''Portrait Bokeh''],
            analysis := Some ((analysis_of_json good_json)\<lparr>quality := Some EXCELLENT\<rparr>)\<rparr>]
   \<and> handleBatchEnhance True (\<lambda>req k. EParts []) BOKEH [enhanced_frame]
       = [enhanced_frame\<lparr>enhancedUrl := None,
            appliedEnhancements := Some [''Cinematic Lighting'', ''Portrait Bokeh''],
            analysis := Some ((analysis_of_json good_json)\<lparr>quality := Some EXCELLENT\<rparr>)\<rparr>]"
  by (simp add: svc_defs handleEnhanceSelection_def handleEnhanceSelection_begin_def
      handleEnhanceSelection_resolve_def handleBatchEnhance_def batch_step_def batch_resolve_def
      updateFrame_def enhanced_frame_def or_undefined_def applied_or_empty_def force_excellent_def
      analysis_of_json_def good_json_def)

text \<open>
  C6. The claim: after a batch, no targeted frame is left with \<open>isEnhancing\<close> true, a
  targeted frame without analysis included. Evaluated on a store whose only keeper has no
  analysis: the flag is set at batch start, the loop skips the frame with \<open>continue\<close>,
  and the flag is still true when the batch is over.
\<close>

theorem batch_skip_leaves_flag_set:
  "handleBatchEnhance True (\<lambda>req k. EParts [Some ''BBBB'']) CINEMATIC [unanalysed_keeper]
     = [unanalysed_keeper\<lparr>isEnhancing := Some True\<rparr>]"
  by (simp add: handleBatchEnhance_def batch_step_def unanalysed_keeper_def pending_frame_def)

text \<open>
  What the handlers do on the paths that work: a rejected enhancement (the \<open>catch\<close>
  branch) changes \<open>isEnhancing\<close> alone, and a batch clears the flag of every target that
  has an analysis.
\<close>

lemma enhance_rejection_only_clears_flag:
  assumes "i < length cur"
  shows "handleEnhanceSelection_resolve (Inl e) frame types cur ! i
           = (if frame_id (cur ! i) = frame_id frame then (cur ! i)\<lparr>isEnhancing := Some False\<rparr> else cur ! i)
       \<and> batch_resolve (Inl e) frame ty cur ! i
           = (if frame_id (cur ! i) = frame_id frame then (cur ! i)\<lparr>isEnhancing := Some False\<rparr> else cur ! i)"
  using assms by (simp add: handleEnhanceSelection_resolve_def batch_resolve_def updateFrame_def)

lemma batch_step_length: "length (batch_step key api ty cur fr) = length cur"
  by (simp add: batch_step_def batch_resolve_def updateFrame_def split: option.splits sum.splits)

lemma batch_step_id:
  "i < length cur \<Longrightarrow> frame_id (batch_step key api ty cur fr ! i) = frame_id (cur ! i)"
  by (simp add: batch_step_def batch_resolve_def updateFrame_def split: option.splits sum.splits)

lemma batch_step_keeps_cleared:
  "i < length cur \<Longrightarrow> isEnhancing (cur ! i) = Some False \<Longrightarrow>
   isEnhancing (batch_step key api ty cur fr ! i) = Some False"
  by (simp add: batch_step_def batch_resolve_def updateFrame_def split: option.splits sum.splits)

lemma batch_step_clears:
  "i < length cur \<Longrightarrow> frame_id (cur ! i) = frame_id fr \<Longrightarrow> analysis fr \<noteq> None \<Longrightarrow>
   isEnhancing (batch_step key api ty cur fr ! i) = Some False"
  by (auto simp add: batch_step_def batch_resolve_def updateFrame_def split: option.splits sum.splits)

lemma batch_loop_length: "length (foldl (batch_step key api ty) cur xs) = length cur"
  by (induction xs arbitrary: cur) (simp_all add: batch_step_length)

lemma batch_loop_keeps_cleared:
  "i < length cur \<Longrightarrow> isEnhancing (cur ! i) = Some False \<Longrightarrow>
   isEnhancing (foldl (batch_step key api ty) cur xs ! i) = Some False"
  by (induction xs arbitrary: cur) (simp_all add: batch_step_length batch_step_keeps_cleared)

lemma batch_loop_clears:
  "fr \<in> set xs \<Longrightarrow> analysis fr \<noteq> None \<Longrightarrow> i < length cur \<Longrightarrow> frame_id (cur ! i) = frame_id fr \<Longrightarrow>
   isEnhancing (foldl (batch_step key api ty) cur xs ! i) = Some False"
proof (induction xs arbitrary: cur)
  case Nil
  then show ?case by simp
next
  case (Cons x xs)
  show ?case
  proof (cases "fr = x")
    case True
    with Cons.prems have "isEnhancing (batch_step key api ty cur x ! i) = Some False"
      by (simp add: batch_step_clears)
    then show ?thesis
      using Cons.prems(3) by (simp add: batch_loop_keeps_cleared batch_step_length)
  next
    case False
    with Cons.prems have "fr \<in> set xs" by simp
    then show ?thesis
      using Cons.IH [of "batch_step key api ty cur x"] Cons.prems
      by (simp add: batch_step_length batch_step_id)
  qed
qed

lemma batch_clears_analysed_targets:
  assumes "i < length frames" and "isSelected (frames ! i)" and "analysis (frames ! i) \<noteq> None"
  shows "isEnhancing (handleBatchEnhance key api ty frames ! i) = Some False"
proof -
  have "frames ! i \<in> set (filter isSelected frames)" using assms(1,2) by simp
  then show ?thesis
    using assms(1,3) unfolding handleBatchEnhance_def Let_def
    by (intro batch_loop_clears [where fr = "frames ! i"]) simp_all
qed

subsection \<open>Sampling\<close>

text \<open>
  Rounding to a double keeps the order of its arguments and leaves a double as it is.
\<close>

lemma subnormal_scale_pos [simp]: "0 < subnormal_scale" "0 \<le> subnormal_scale" "subnormal_scale \<noteq> 0"
  by (simp_all add: subnormal_scale_def)

lemma rhe_0 [simp]: "round_half_even 0 = 0"
  by (simp add: round_half_even_def)

lemma rhe_of_int [simp]: "round_half_even (of_int n) = n"
  by (simp add: round_half_even_def)

lemma rhe_cases: "round_half_even x = \<lfloor>x\<rfloor> \<or> round_half_even x = \<lfloor>x\<rfloor> + 1"
  by (simp add: round_half_even_def Let_def)

lemma rhe_mono: "x \<le> y \<Longrightarrow> round_half_even x \<le> round_half_even y"
proof -
  assume xy: "x \<le> y"
  have fl: "\<lfloor>x\<rfloor> \<le> \<lfloor>y\<rfloor>" using xy by (rule floor_mono)
  show ?thesis
  proof (cases "\<lfloor>x\<rfloor> = \<lfloor>y\<rfloor>")
    case True
    then show ?thesis using xy
      by (auto simp add: round_half_even_def Let_def)
  next
    case False
    with fl have "\<lfloor>x\<rfloor> + 1 \<le> \<lfloor>y\<rfloor>" by simp
    moreover have "round_half_even x \<le> \<lfloor>x\<rfloor> + 1" using rhe_cases [of x] by auto
    moreover have "\<lfloor>y\<rfloor> \<le> round_half_even y" using rhe_cases [of y] by auto
    ultimately show ?thesis by linarith
  qed
qed

lemma ulp_exp_small: "n < 2 ^ 53 \<Longrightarrow> ulp_exp n = 0"
  by (simp add: ulp_exp.simps)

lemma ulp_exp_eqI: "2 ^ 52 * 2 ^ j \<le> n \<Longrightarrow> n < 2 ^ 53 * 2 ^ j \<Longrightarrow> ulp_exp n = j"
proof (induction j arbitrary: n)
  case 0
  then show ?case by (simp add: ulp_exp_small)
next
  case (Suc j)
  have a: "2 ^ 52 * 2 ^ j \<le> n div 2" using Suc.prems(1) by simp
  have b: "n div 2 < 2 ^ 53 * 2 ^ j" using Suc.prems(2) by simp
  have "(1::int) \<le> 2 ^ j" by simp
  moreover have "2 ^ 53 * 2 ^ j \<le> n" using Suc.prems(1) by simp
  ultimately have c: "\<not> n < 2 ^ 53" by (simp; linarith?)
  show ?case using Suc.IH [OF a b] c by (subst ulp_exp.simps) simp
qed

lemma ulp_exp_bounds:
  "2 ^ 53 \<le> n \<Longrightarrow> 2 ^ 52 * 2 ^ ulp_exp n \<le> n \<and> n < 2 ^ 53 * 2 ^ ulp_exp n"
proof (induction n rule: ulp_exp.induct)
  case (1 n)
  have nn: "\<not> n < 2 ^ 53" using "1.prems" by simp
  have u: "ulp_exp n = Suc (ulp_exp (n div 2))" using nn by (subst ulp_exp.simps) simp
  show ?case
  proof (cases "n div 2 < 2 ^ 53")
    case True
    then have z: "ulp_exp (n div 2) = 0" by (rule ulp_exp_small)
    have "n < 2 ^ 54" using True by simp
    with "1.prems" show ?thesis by (simp add: u z)
  next
    case False
    then have "2 ^ 53 \<le> n div 2" by simp
    from "1.IH" [OF nn this] have
      lo: "2 ^ 52 * 2 ^ ulp_exp (n div 2) \<le> n div 2" and hi: "n div 2 < 2 ^ 53 * 2 ^ ulp_exp (n div 2)"
      by simp_all
    have e1: "n div 2 * 2 \<le> n" and e2: "n < n div 2 * 2 + 2" by linarith+
    have "2 ^ 53 * 2 ^ ulp_exp (n div 2) \<le> n" using lo e1 by (simp; linarith?)
    moreover have "n < 2 ^ 54 * 2 ^ ulp_exp (n div 2)" using hi e2 by (simp; linarith?)
    ultimately show ?thesis by (simp add: u)
  qed
qed

lemma ulp_exp_mono: "m \<le> n \<Longrightarrow> ulp_exp m \<le> ulp_exp n"
proof (induction n arbitrary: m rule: ulp_exp.induct)
  case (1 n)
  show ?case
  proof (cases "m < 2 ^ 53")
    case True
    then show ?thesis by (simp add: ulp_exp_small)
  next
    case False
    with "1.prems" have nn: "\<not> n < 2 ^ 53" by linarith
    have "m div 2 \<le> n div 2" using "1.prems" by (simp add: zdiv_mono1)
    from "1.IH" [OF nn this] show ?thesis
      using False nn by (simp add: ulp_exp.simps [of m] ulp_exp.simps [of n])
  qed
qed

lemma round_scaled_unfold:
  "round_scaled y = round_half_even (y / 2 ^ ulp_exp \<lfloor>y\<rfloor>) * 2 ^ ulp_exp \<lfloor>y\<rfloor>"
  by (simp add: round_scaled_def Let_def)

lemma below_binade_top:
  assumes "0 \<le> y"
  shows "y < of_int (2 ^ 53 * 2 ^ ulp_exp \<lfloor>y\<rfloor>)"
proof -
  have "\<lfloor>y\<rfloor> < 2 ^ 53 * 2 ^ ulp_exp \<lfloor>y\<rfloor>"
  proof (cases "2 ^ 53 \<le> \<lfloor>y\<rfloor>")
    case True
    then show ?thesis using ulp_exp_bounds by blast
  next
    case False
    have "(1::int) \<le> 2 ^ ulp_exp \<lfloor>y\<rfloor>" by simp
    then have "(2::int) ^ 53 \<le> 2 ^ 53 * 2 ^ ulp_exp \<lfloor>y\<rfloor>" by simp
    with False show ?thesis by linarith
  qed
  then show ?thesis by (simp only: floor_less_iff)
qed

lemma round_scaled_mono:
  assumes "0 \<le> y" and "y \<le> y'"
  shows "round_scaled y \<le> round_scaled y'"
proof -
  define k where "k = ulp_exp \<lfloor>y\<rfloor>"
  define k' where "k' = ulp_exp \<lfloor>y'\<rfloor>"
  have kk: "k \<le> k'" unfolding k_def k'_def using assms(2) by (intro ulp_exp_mono floor_mono)
  show ?thesis
  proof (cases "k = k'")
    case True
    have "y / 2 ^ k \<le> y' / 2 ^ k" using assms(2) by (simp add: divide_right_mono)
    then have "round_half_even (y / 2 ^ k) \<le> round_half_even (y' / 2 ^ k)" by (rule rhe_mono)
    then have "round_half_even (y / 2 ^ k) * 2 ^ k \<le> round_half_even (y' / 2 ^ k) * 2 ^ k"
      by (simp add: mult_right_mono)
    then show ?thesis using True unfolding round_scaled_unfold k_def k'_def by simp
  next
    case False
    with kk have lt: "Suc k \<le> k'" by simp
    define B :: int where "B = 2 ^ 52 * 2 ^ k'"
    have "0 < k'" using lt by simp
    then have "\<not> \<lfloor>y'\<rfloor> < 2 ^ 53" using ulp_exp_small [of "\<lfloor>y'\<rfloor>"] unfolding k'_def by auto
    then have "B \<le> \<lfloor>y'\<rfloor>" using ulp_exp_bounds [of "\<lfloor>y'\<rfloor>"] unfolding B_def k'_def by simp
    then have By': "of_int B \<le> y'" by (simp add: le_floor_iff)
    have "(2::int) ^ Suc k \<le> 2 ^ k'" using lt by (intro power_increasing) simp_all
    then have "(2::int) ^ 52 * 2 ^ Suc k \<le> 2 ^ 52 * 2 ^ k'" by (intro mult_left_mono) simp_all
    then have tB: "2 ^ 53 * 2 ^ k \<le> B" unfolding B_def by simp
    have "y < of_int (2 ^ 53 * 2 ^ k)" using below_binade_top [OF assms(1)] unfolding k_def .
    also have "\<dots> \<le> of_int B" using tB by (simp only: of_int_le_iff)
    finally have yB: "y \<le> of_int B" by simp
    have split: "B = 2 ^ 52 * 2 ^ (k' - k) * 2 ^ k"
      unfolding B_def using kk by (simp add: power_add [symmetric])
    have "of_int B / 2 ^ k = (of_int (2 ^ 52 * 2 ^ (k' - k)) :: rat)"
      by (subst split) simp
    then have r1: "round_half_even (of_int B / 2 ^ k) = 2 ^ 52 * 2 ^ (k' - k)"
      by (simp only: rhe_of_int)
    have "round_half_even (y / 2 ^ k) \<le> round_half_even (of_int B / 2 ^ k)"
      using yB by (intro rhe_mono divide_right_mono) simp_all
    then have "round_half_even (y / 2 ^ k) * 2 ^ k \<le> 2 ^ 52 * 2 ^ (k' - k) * 2 ^ k"
      unfolding r1 by (simp add: mult_right_mono)
    then have lo: "round_scaled y \<le> B"
      unfolding round_scaled_unfold k_def [symmetric] using split by simp
    have "of_int B / 2 ^ k' = (of_int (2 ^ 52) :: rat)" unfolding B_def by simp
    then have r2: "round_half_even (of_int B / 2 ^ k') = 2 ^ 52" by (simp only: rhe_of_int)
    have "round_half_even (of_int B / 2 ^ k') \<le> round_half_even (y' / 2 ^ k')"
      using By' by (intro rhe_mono divide_right_mono) simp_all
    then have "2 ^ 52 * 2 ^ k' \<le> round_half_even (y' / 2 ^ k') * 2 ^ k'"
      unfolding r2 by (simp add: mult_right_mono)
    then have hi: "B \<le> round_scaled y'"
      unfolding round_scaled_unfold k'_def [symmetric] B_def by simp
    from lo hi show ?thesis by linarith
  qed
qed

lemma round_scaled_0 [simp]: "round_scaled 0 = 0"
  by (simp add: round_scaled_unfold)

lemma round_scaled_nonneg: "0 \<le> y \<Longrightarrow> 0 \<le> round_scaled y"
  using round_scaled_mono [of 0 y] by simp

lemma round_scaled_idem:
  assumes "0 \<le> y"
  shows "round_scaled (of_int (round_scaled y)) = round_scaled y"
proof -
  define k where "k = ulp_exp \<lfloor>y\<rfloor>"
  define n where "n = round_half_even (y / 2 ^ k)"
  define m where "m = n * 2 ^ k"
  have m: "round_scaled y = m" unfolding m_def n_def k_def round_scaled_unfold ..
  have rs: "round_scaled (of_int m) = round_half_even (of_int m / 2 ^ ulp_exp m) * 2 ^ ulp_exp m"
    unfolding round_scaled_unfold by simp
  have "y < of_int (2 ^ 53 * 2 ^ k)" using below_binade_top [OF assms] unfolding k_def .
  then have "y / 2 ^ k \<le> of_int (2 ^ 53)" by (simp add: divide_simps)
  then have "round_half_even (y / 2 ^ k) \<le> round_half_even (of_int (2 ^ 53))" by (rule rhe_mono)
  then have n_hi: "n \<le> 2 ^ 53" unfolding n_def by (simp only: rhe_of_int)
  have n_lo: "0 < k \<Longrightarrow> 2 ^ 52 \<le> n"
  proof -
    assume "0 < k"
    then have "\<not> \<lfloor>y\<rfloor> < 2 ^ 53" using ulp_exp_small [of "\<lfloor>y\<rfloor>"] unfolding k_def by auto
    then have "2 ^ 52 * 2 ^ k \<le> \<lfloor>y\<rfloor>" using ulp_exp_bounds [of "\<lfloor>y\<rfloor>"] unfolding k_def by simp
    then have "of_int (2 ^ 52 * 2 ^ k) \<le> y" by (simp only: le_floor_iff)
    then have "of_int (2 ^ 52) \<le> y / 2 ^ k" by (simp add: divide_simps)
    then have "round_half_even (of_int (2 ^ 52)) \<le> round_half_even (y / 2 ^ k)" by (rule rhe_mono)
    then show "2 ^ 52 \<le> n" unfolding n_def by (simp only: rhe_of_int)
  qed
  show ?thesis
  proof (cases "n = 2 ^ 53")
    case True
    have mm: "m = 2 ^ 52 * 2 ^ Suc k" unfolding m_def True by simp
    have "ulp_exp m = Suc k" unfolding mm by (rule ulp_exp_eqI) simp_all
    moreover have "of_int m / 2 ^ Suc k = (of_int (2 ^ 52) :: rat)" unfolding mm by simp
    then have "round_half_even (of_int m / 2 ^ Suc k) = 2 ^ 52" by (simp only: rhe_of_int)
    ultimately have "round_scaled (of_int m) = 2 ^ 52 * 2 ^ Suc k" unfolding rs by simp
    then show ?thesis unfolding m mm .
  next
    case False
    with n_hi have nlt: "n < 2 ^ 53" by simp
    have "ulp_exp m = k"
    proof (cases "k = 0")
      case True
      then show ?thesis using nlt unfolding m_def by (simp add: ulp_exp_small)
    next
      case False
      then have "2 ^ 52 \<le> n" using n_lo by simp
      then have "2 ^ 52 * 2 ^ k \<le> m" unfolding m_def by (simp add: mult_right_mono)
      moreover have "m < 2 ^ 53 * 2 ^ k" unfolding m_def using nlt by simp
      ultimately show ?thesis by (rule ulp_exp_eqI)
    qed
    moreover have "of_int m / 2 ^ k = (of_int n :: rat)" unfolding m_def by simp
    then have "round_half_even (of_int m / 2 ^ k) = n" by (simp only: rhe_of_int)
    ultimately have "round_scaled (of_int m) = n * 2 ^ k" unfolding rs by simp
    then show ?thesis unfolding m m_def .
  qed
qed

lemma round_double_alt:
  "round_double x =
     (if x < 0 then - (of_int (round_scaled (\<bar>x\<bar> * subnormal_scale)) / subnormal_scale)
      else of_int (round_scaled (\<bar>x\<bar> * subnormal_scale)) / subnormal_scale)"
  by (simp only: round_double_def Let_def)

lemma scaled_abs_nonneg: "0 \<le> \<bar>x\<bar> * subnormal_scale"
  by (intro mult_nonneg_nonneg) simp_all

lemma magnitude_nonneg: "0 \<le> rat_of_int (round_scaled (\<bar>x\<bar> * subnormal_scale)) / subnormal_scale"
  by (intro divide_nonneg_pos) (simp_all add: round_scaled_nonneg scaled_abs_nonneg)

lemma magnitude_mono:
  assumes "\<bar>x\<bar> \<le> \<bar>y\<bar>"
  shows "rat_of_int (round_scaled (\<bar>x\<bar> * subnormal_scale)) / subnormal_scale
           \<le> rat_of_int (round_scaled (\<bar>y\<bar> * subnormal_scale)) / subnormal_scale"
proof -
  have "\<bar>x\<bar> * subnormal_scale \<le> \<bar>y\<bar> * subnormal_scale"
    using assms by (intro mult_right_mono) simp_all
  then have "round_scaled (\<bar>x\<bar> * subnormal_scale) \<le> round_scaled (\<bar>y\<bar> * subnormal_scale)"
    by (intro round_scaled_mono scaled_abs_nonneg)
  then have "rat_of_int (round_scaled (\<bar>x\<bar> * subnormal_scale))
               \<le> rat_of_int (round_scaled (\<bar>y\<bar> * subnormal_scale))"
    by (simp only: of_int_le_iff)
  then show ?thesis by (intro divide_right_mono) simp_all
qed

lemma round_double_0 [simp]: "round_double 0 = 0"
  by (simp add: round_double_def)

lemma round_double_nonneg: "0 \<le> x \<Longrightarrow> 0 \<le> round_double x"
  using magnitude_nonneg [of x] by (simp only: round_double_alt) auto

lemma round_double_nonpos: "x \<le> 0 \<Longrightarrow> round_double x \<le> 0"
proof (cases "x = 0")
  case True
  then show ?thesis by simp
next
  case False
  assume "x \<le> 0"
  with False have "x < 0" by simp
  then show ?thesis using magnitude_nonneg [of x] by (simp only: round_double_alt) auto
qed

lemma round_double_mono:
  assumes "x \<le> y"
  shows "round_double x \<le> round_double y"
proof -
  consider "0 \<le> x" | "x < 0" "0 \<le> y" | "y < 0" by linarith
  then show ?thesis
  proof cases
    case 1
    then have "\<bar>x\<bar> \<le> \<bar>y\<bar>" using assms by simp
    from magnitude_mono [OF this] show ?thesis
      using 1 assms by (simp only: round_double_alt) auto
  next
    case 2
    then show ?thesis using round_double_nonpos [of x] round_double_nonneg [of y] by linarith
  next
    case 3
    then have "\<bar>y\<bar> \<le> \<bar>x\<bar>" using assms by simp
    from magnitude_mono [OF this] show ?thesis
      using 3 assms by (simp only: round_double_alt) auto
  qed
qed

lemma round_double_idem: "round_double (round_double x) = round_double x"
proof -
  define m where "m = round_scaled (\<bar>x\<bar> * subnormal_scale)"
  have m0: "0 \<le> m" unfolding m_def by (intro round_scaled_nonneg scaled_abs_nonneg)
  have idem: "round_scaled (of_int m) = m"
    unfolding m_def by (intro round_scaled_idem scaled_abs_nonneg)
  have q0: "0 \<le> rat_of_int m / subnormal_scale" using m0 by (intro divide_nonneg_pos) simp_all
  have unscale: "\<bar>rat_of_int m / subnormal_scale\<bar> * subnormal_scale = of_int m"
    using q0 by (simp only: abs_of_nonneg) simp
  have pos: "round_double (of_int m / subnormal_scale) = of_int m / subnormal_scale"
    using q0 by (simp only: round_double_alt unscale idem) auto
  have neg: "round_double (- (of_int m / subnormal_scale)) = - (of_int m / subnormal_scale)"
  proof (cases "m = 0")
    case True
    then show ?thesis by simp
  next
    case False
    with m0 have "0 < rat_of_int m" by simp
    then have "0 < rat_of_int m / subnormal_scale" by (intro divide_pos_pos) simp_all
    then have lt: "- (rat_of_int m / subnormal_scale) < 0" by linarith
    have "\<bar>- (rat_of_int m / subnormal_scale)\<bar> * subnormal_scale = of_int m"
      using unscale by (simp only: abs_minus_cancel)
    then show ?thesis using lt by (simp only: round_double_alt idem) auto
  qed
  show ?thesis
  proof (cases "x < 0")
    case True
    then have "round_double x = - (of_int m / subnormal_scale)"
      by (simp only: round_double_alt m_def) auto
    with neg show ?thesis by (simp only:)
  next
    case False
    then have "round_double x = of_int m / subnormal_scale"
      by (simp only: round_double_alt m_def) auto
    with pos show ?thesis by (simp only:)
  qed
qed

lemma round_double_normal:
  assumes "0 \<le> x" and "j \<le> 1074" and "2 ^ 52 \<le> x * 2 ^ j" and "x * 2 ^ j < 2 ^ 53"
  shows "round_double x = of_int (round_half_even (x * 2 ^ j)) / 2 ^ j"
proof -
  define k where "k = 1074 - j"
  have sc: "subnormal_scale = 2 ^ j * 2 ^ k"
    unfolding subnormal_scale_def k_def using assms(2) by (simp add: power_add [symmetric])
  define y where "y = x * subnormal_scale"
  have y: "y = x * 2 ^ j * 2 ^ k" unfolding y_def sc by simp
  have "of_int (2 ^ 52 * 2 ^ k) \<le> y" unfolding y using assms(3) by (simp add: mult_right_mono)
  then have lo: "2 ^ 52 * 2 ^ k \<le> \<lfloor>y\<rfloor>" by (simp only: le_floor_iff)
  have "y < of_int (2 ^ 53 * 2 ^ k)" unfolding y using assms(4) by simp
  then have hi: "\<lfloor>y\<rfloor> < 2 ^ 53 * 2 ^ k" by (simp only: floor_less_iff)
  have u: "ulp_exp \<lfloor>y\<rfloor> = k" using lo hi by (rule ulp_exp_eqI)
  have "y / 2 ^ k = x * 2 ^ j" unfolding y by simp
  then have "round_scaled y = round_half_even (x * 2 ^ j) * 2 ^ k"
    unfolding round_scaled_unfold u by simp
  then have "rat_of_int (round_scaled y) / subnormal_scale = of_int (round_half_even (x * 2 ^ j)) / 2 ^ j"
    unfolding sc by simp
  then show ?thesis using assms(1) unfolding y_def by (simp only: round_double_alt) auto
qed

lemma rhe_half: "round_half_even (of_int n + 1 / 2) = (if even n then n else n + 1)"
proof -
  have "\<lfloor>rat_of_int n + 1 / 2\<rfloor> = n" by linarith
  then show ?thesis by (simp add: round_half_even_def Let_def)
qed

lemma to_double_cases:
  "to_double x = PInf \<or> to_double x = NInf
   \<or> (to_double x = Fin (round_double x) \<and> - double_limit < round_double x \<and> round_double x < double_limit)"
  by (auto simp add: to_double_def Let_def)

lemma to_double_is_jsnum: "is_jsnum (to_double x)"
  using to_double_cases [of x] by (auto simp add: is_jsnum_def round_double_idem)

lemma double_limit_pos [simp]: "0 < double_limit"
  by (simp add: double_limit_def)

lemma jadd_is_jsnum: "is_jsnum (jadd a b)"
  by (cases a; cases b) (simp_all add: to_double_is_jsnum, simp_all add: is_jsnum_def)

lemma to_double_above:
  assumes "round_double t = t" and "- double_limit < t" and "t \<le> x"
  shows "to_double x \<noteq> NInf" and "to_double x = Fin t' \<Longrightarrow> t \<le> t'"
proof -
  have m: "t \<le> round_double x" using round_double_mono [OF assms(3)] assms(1) by simp
  show "to_double x \<noteq> NInf" using m assms(2) by (auto simp add: to_double_def Let_def)
  show "to_double x = Fin t' \<Longrightarrow> t \<le> t'" using m by (auto simp add: to_double_def Let_def split: if_splits)
qed

lemma jlt_finite: "jlt a b \<Longrightarrow> a \<noteq> NInf \<Longrightarrow> \<exists>t. a = Fin t"
  by (cases a; cases b) simp_all

lemma jle_not_jlt: "jle b a \<Longrightarrow> \<not> jlt a b"
  by (cases a; cases b) simp_all

lemma Math_max_one:
  "Math_max (Fin 1) x = NaN \<or> Math_max (Fin 1) x = PInf \<or> (\<exists>v. Math_max (Fin 1) x = Fin v \<and> 1 \<le> v)"
  by (cases x) (auto simp add: Math_max_def)

lemma step_advances:
  assumes "ival = NaN \<or> ival = PInf \<or> (\<exists>v. ival = Fin v \<and> 1 \<le> v)"
      and "is_jsnum (Fin t)"
  shows "jadd (Fin t) ival \<noteq> NInf" and "jadd (Fin t) ival = Fin t' \<Longrightarrow> t \<le> t'"
proof -
  have d: "round_double t = t" and lo: "- double_limit < t"
    using assms(2) by (auto simp add: is_jsnum_def)
  from assms(1) consider "ival = NaN" | "ival = PInf" | v where "ival = Fin v" "1 \<le> v" by blast
  then show "jadd (Fin t) ival \<noteq> NInf"
  proof cases
    case 3
    then have "t \<le> t + v" by simp
    from to_double_above(1) [OF d lo this] show ?thesis using 3 by simp
  qed simp_all
  from assms(1) consider "ival = NaN" | "ival = PInf" | v where "ival = Fin v" "1 \<le> v" by blast
  then show "jadd (Fin t) ival = Fin t' \<Longrightarrow> t \<le> t'"
  proof cases
    case 3
    assume a: "jadd (Fin t) ival = Fin t'"
    have "t \<le> t + v" using 3 by simp
    from to_double_above(2) [OF d lo this] a show ?thesis using 3 by simp
  qed simp_all
qed

text \<open>
  The loop appends to the store, at most \<open>maxFrames\<close> frames less the passes already
  counted; the first new timestamp is the current time, each next one is the double sum
  of its predecessor and the step, and all of them lie from the current time on and below
  the end time.
\<close>

lemma scan_loop_appends:
  assumes "ival = NaN \<or> ival = PInf \<or> (\<exists>v. ival = Fin v \<and> 1 \<le> v)"
      and "is_jsnum cur" and "cur \<noteq> NInf"
  shows "\<exists>new. scan_loop u cap e ival cur c fs = fs @ new
           \<and> length new \<le> maxFrames - c
           \<and> (\<forall>x\<in>set new. jle cur (Fin (timestamp x)) \<and> jlt (Fin (timestamp x)) e)
           \<and> (new \<noteq> [] \<longrightarrow> Fin (timestamp (hd new)) = cur)
           \<and> (\<forall>i. Suc i < length new \<longrightarrow>
                  Fin (timestamp (new ! Suc i)) = jadd (Fin (timestamp (new ! i))) ival)
           \<and> (\<not> jlt cur e \<longrightarrow> new = [])"
  using assms
proof (induction u cap e ival cur c fs rule: scan_loop.induct)
  case (1 uuid capture endTime ival currentTime count frames)
  show ?case
  proof (cases "jlt currentTime endTime \<and> count < maxFrames")
    case False
    then have "scan_loop uuid capture endTime ival currentTime count frames = frames @ []"
      by (subst scan_loop.simps) auto
    then show ?thesis by (intro exI [of _ "[]"]) simp
  next
    case True
    then obtain t where t: "currentTime = Fin t" using jlt_finite "1.prems"(3) by blast
    define nxt where "nxt = jadd currentTime ival"
    define nf where "nf = newFrame (uuid count) (num_val currentTime) (capture (num_val currentTime))"
    have tv: "is_jsnum (Fin t)" using "1.prems"(2) t by simp
    have n1: "is_jsnum nxt" unfolding nxt_def by (rule jadd_is_jsnum)
    have n2: "nxt \<noteq> NInf" unfolding nxt_def t by (rule step_advances(1) [OF "1.prems"(1) tv])
    from "1.IH" [OF True "1.prems"(1) n1 [unfolded nxt_def] n2 [unfolded nxt_def]] obtain new where
      eq: "scan_loop uuid capture endTime ival nxt (count + 1) (frames @ [nf]) = (frames @ [nf]) @ new"
      and len: "length new \<le> maxFrames - (count + 1)"
      and rng: "\<forall>x\<in>set new. jle nxt (Fin (timestamp x)) \<and> jlt (Fin (timestamp x)) endTime"
      and hd: "new \<noteq> [] \<longrightarrow> Fin (timestamp (hd new)) = nxt"
      and step: "\<forall>i. Suc i < length new \<longrightarrow>
                   Fin (timestamp (new ! Suc i)) = jadd (Fin (timestamp (new ! i))) ival"
      unfolding nf_def nxt_def by blast
    have ts: "timestamp nf = t" by (simp add: nf_def newFrame_def t)
    have a: "scan_loop uuid capture endTime ival currentTime count frames = frames @ (nf # new)"
      using True eq
      by (simp add: scan_loop.simps [of uuid capture endTime ival currentTime count frames] nf_def nxt_def)
    have b: "length (nf # new) \<le> maxFrames - count"
      using len True by (cases "count < maxFrames") auto
    have c: "\<forall>x\<in>set (nf # new). jle currentTime (Fin (timestamp x)) \<and> jlt (Fin (timestamp x)) endTime"
    proof
      fix x assume "x \<in> set (nf # new)"
      then consider "x = nf" | "x \<in> set new" by auto
      then show "jle currentTime (Fin (timestamp x)) \<and> jlt (Fin (timestamp x)) endTime"
      proof cases
        case 1
        then show ?thesis using True ts t by simp
      next
        case 2
        with rng have r: "jle nxt (Fin (timestamp x))" and r': "jlt (Fin (timestamp x)) endTime"
          by simp_all
        from r n2 obtain t' where t': "nxt = Fin t'" by (cases nxt) simp_all
        have "t \<le> t'" using step_advances(2) [OF "1.prems"(1) tv] t' unfolding nxt_def t by simp
        moreover have "t' \<le> timestamp x" using r t' by simp
        ultimately show ?thesis using r' t by simp
      qed
    qed
    have d: "\<forall>i. Suc i < length (nf # new) \<longrightarrow>
               Fin (timestamp ((nf # new) ! Suc i)) = jadd (Fin (timestamp ((nf # new) ! i))) ival"
    proof (intro allI impI)
      fix i assume i: "Suc i < length (nf # new)"
      show "Fin (timestamp ((nf # new) ! Suc i)) = jadd (Fin (timestamp ((nf # new) ! i))) ival"
      proof (cases i)
        case 0
        with i have "new \<noteq> []" by auto
        with hd have "Fin (timestamp (new ! 0)) = nxt" by (simp add: hd_conv_nth)
        with 0 ts show ?thesis by (simp add: nxt_def t)
      next
        case (Suc j)
        with i step show ?thesis by simp
      qed
    qed
    show ?thesis
      using a b c d ts t True by (intro exI [of _ "nf # new"]) simp
  qed
qed

text \<open>Evaluating the rounding at a positive number below \<open>2^53\<close>.\<close>

lemma to_double_0 [simp]: "to_double 0 = Fin 0"
proof -
  have "\<not> double_limit \<le> 0" using double_limit_pos by linarith
  then show ?thesis by (simp add: to_double_def Let_def)
qed

lemma small_below_limit: "x \<le> 2 ^ 53 \<Longrightarrow> x < double_limit"
proof -
  assume "x \<le> 2 ^ 53"
  moreover have "(2::rat) ^ 53 < 2 ^ 1024" by (rule power_strict_increasing) simp_all
  ultimately show ?thesis unfolding double_limit_def by linarith
qed

lemma to_double_rounded:
  assumes "0 \<le> x" and "j \<le> 1074" and "2 ^ 52 \<le> x * 2 ^ j" and "x * 2 ^ j < 2 ^ 53"
      and "round_half_even (x * 2 ^ j) = n"
  shows "to_double x = Fin (of_int n / 2 ^ j)"
proof -
  have r: "round_double x = of_int n / 2 ^ j"
    using round_double_normal [OF assms(1-4)] assms(5) by simp
  have "round_half_even (x * 2 ^ j) \<le> round_half_even (of_int (2 ^ 53))"
    using assms(4) by (intro rhe_mono) simp
  then have "n \<le> 2 ^ 53" using assms(5) by (simp only: rhe_of_int)
  then have "rat_of_int n \<le> 2 ^ 53" by (metis of_int_le_iff of_int_numeral of_int_power)
  moreover have "rat_of_int n / 2 ^ j \<le> rat_of_int n"
  proof -
    have "0 \<le> round_half_even (x * 2 ^ j)"
      using rhe_mono [of 0 "x * 2 ^ j"] assms(1) by simp
    then have "0 \<le> rat_of_int n" using assms(5) by simp
    moreover have "(1::rat) \<le> 2 ^ j" by simp
    ultimately show ?thesis by (simp add: divide_le_eq mult_left_mono [of 1 "2 ^ j" "rat_of_int n", simplified])
  qed
  ultimately have hi: "rat_of_int n / 2 ^ j < double_limit" by (intro small_below_limit) linarith
  have "0 \<le> round_double x" using assms(1) by (rule round_double_nonneg)
  then have lo: "\<not> rat_of_int n / 2 ^ j \<le> - double_limit"
    unfolding r using double_limit_pos by linarith
  show ?thesis using hi lo by (simp add: to_double_def Let_def r)
qed

lemma to_double_exact:
  assumes "0 \<le> x" and "j \<le> 1074" and "2 ^ 52 \<le> x * 2 ^ j" and "x * 2 ^ j < 2 ^ 53"
      and "x * 2 ^ j = of_int n"
  shows "to_double x = Fin x"
proof -
  have "round_half_even (x * 2 ^ j) = n" unfolding assms(5) by simp
  from to_double_rounded [OF assms(1-4) this] have "to_double x = Fin (of_int n / 2 ^ j)" .
  moreover have "rat_of_int n / 2 ^ j = x" unfolding assms(5) [symmetric] by simp
  ultimately show ?thesis by simp
qed

lemma is_jsnum_exact:
  assumes "0 \<le> x" and "j \<le> 1074" and "2 ^ 52 \<le> x * 2 ^ j" and "x * 2 ^ j < 2 ^ 53"
      and "x * 2 ^ j = of_int n"
  shows "is_jsnum (Fin x)"
  using to_double_is_jsnum [of x] to_double_exact [OF assms] by simp

text \<open>The arithmetic of a scan of the second half of a video of 4.2 seconds, one second apart.\<close>

lemma double_4_2_nearest: "to_double (21 / 5) = Fin double_4_2"
proof -
  have "round_half_even (21 / 5 * 2 ^ 50) = 4728779608739021" by code_simp
  from to_double_rounded [OF _ _ _ _ this] show ?thesis by (simp add: double_4_2_def)
qed

lemma double_4_2_is_jsnum: "is_jsnum (Fin double_4_2)"
  by (rule is_jsnum_exact [where j = 50 and n = 4728779608739021]) (simp_all add: double_4_2_def)

lemma half_of_4_2: "jdiv2 (Fin double_4_2) = Fin double_2_1"
proof -
  have h: "double_4_2 / 2 = double_2_1" by (simp add: double_4_2_def double_2_1_def)
  have "to_double double_2_1 = Fin double_2_1"
    by (rule to_double_exact [where j = 51 and n = 4728779608739021]) (simp_all add: double_2_1_def)
  then have "to_double (double_4_2 / 2) = Fin double_2_1" by (simp only: h)
  then show ?thesis by (simp add: jdiv2_def)
qed

lemma step_from_2_1: "jadd (Fin double_2_1) (Fin 1) = Fin double_3_1"
proof -
  have h: "double_2_1 + 1 = double_3_1" by (simp add: double_2_1_def double_3_1_def)
  have "to_double double_3_1 = Fin double_3_1"
    by (rule to_double_exact [where j = 51 and n = 6980579422424269]) (simp_all add: double_3_1_def)
  then have "to_double (double_2_1 + 1) = Fin double_3_1" by (simp only: h)
  then show ?thesis by (simp only: jadd.simps)
qed

lemma step_from_3_1: "jadd (Fin double_3_1) (Fin 1) = Fin double_4_1"
proof -
  have "(double_3_1 + 1) * 2 ^ 50 = rat_of_int 4616189618054758 + 1 / 2"
    by (simp add: double_3_1_def)
  then have "round_half_even ((double_3_1 + 1) * 2 ^ 50) = 4616189618054758"
    by (simp only: rhe_half) simp
  from to_double_rounded [OF _ _ _ _ this]
  have "to_double (double_3_1 + 1) = Fin (rat_of_int 4616189618054758 / 2 ^ 50)"
    by (simp add: double_3_1_def)
  moreover have "rat_of_int 4616189618054758 / 2 ^ 50 = double_4_1" by (simp add: double_4_1_def)
  ultimately have "to_double (double_3_1 + 1) = Fin double_4_1" by (simp only:)
  then show ?thesis by (simp only: jadd.simps)
qed

lemma step_from_4_1: "jadd (Fin double_4_1) (Fin 1) = Fin double_5_1"
proof -
  have h: "double_4_1 + 1 = double_5_1" by (simp add: double_4_1_def double_5_1_def)
  have "to_double double_5_1 = Fin double_5_1"
    by (rule to_double_exact [where j = 50 and n = 5742089524897382]) (simp_all add: double_5_1_def)
  then have "to_double (double_4_1 + 1) = Fin double_5_1" by (simp only: h)
  then show ?thesis by (simp only: jadd.simps)
qed

lemma scan_of_4_2:
  "map timestamp (startExtraction True None example_uuid example_capture (Fin double_4_2)
       second_half_by_1 []) = [double_2_1, double_3_1, double_4_1]"
proof -
  have o: "double_2_1 < double_4_2" "double_3_1 < double_4_2" "double_4_1 < double_4_2"
    "\<not> double_5_1 < double_4_2"
    by (simp_all add: double_2_1_def double_3_1_def double_4_1_def double_5_1_def double_4_2_def)
  have m: "Math_max (Fin 1) (Fin 1) = Fin 1" by (simp add: Math_max_def)
  have l3: "scan_loop example_uuid example_capture (Fin double_4_2) (Fin 1) (Fin double_5_1) c fs = fs"
    for c fs
    by (subst scan_loop.simps) (simp add: o)
  have l2: "scan_loop example_uuid example_capture (Fin double_4_2) (Fin 1) (Fin double_4_1)
              (Suc (Suc 0)) fs
              = fs @ [newFrame (example_uuid (Suc (Suc 0))) double_4_1 (example_capture double_4_1)]"
    for fs
    by (subst scan_loop.simps) (simp add: o maxFrames_def step_from_4_1 l3 del: jadd.simps)
  have l1: "scan_loop example_uuid example_capture (Fin double_4_2) (Fin 1) (Fin double_3_1)
              (Suc 0) fs
              = fs @ [newFrame (example_uuid (Suc 0)) double_3_1 (example_capture double_3_1),
                      newFrame (example_uuid (Suc (Suc 0))) double_4_1 (example_capture double_4_1)]"
    for fs
    by (subst scan_loop.simps) (simp add: o maxFrames_def step_from_3_1 l2 del: jadd.simps)
  have l0: "scan_loop example_uuid example_capture (Fin double_4_2) (Fin 1) (Fin double_2_1) 0 fs
              = fs @ [newFrame (example_uuid 0) double_2_1 (example_capture double_2_1),
                      newFrame (example_uuid (Suc 0)) double_3_1 (example_capture double_3_1),
                      newFrame (example_uuid (Suc (Suc 0))) double_4_1 (example_capture double_4_1)]"
    for fs
    by (subst scan_loop.simps) (simp add: o maxFrames_def step_from_2_1 l1 del: jadd.simps)
  show ?thesis
    by (simp add: startExtraction_def second_half_by_1_def resolve_range_def half_of_4_2 m l0
        newFrame_def)
qed

lemma scaled_not_NInf:
  assumes "is_jsnum (Fin d)" and "0 \<le> c" and "c \<le> 1"
  shows "to_double (d * c) \<noteq> NInf"
proof -
  have dd: "round_double d = d" and lo: "- double_limit < d"
    using assms(1) by (auto simp add: is_jsnum_def)
  show ?thesis
  proof (cases "0 \<le> d")
    case True
    have z: "- double_limit < 0" using double_limit_pos by linarith
    have "0 \<le> d * c" using True assms(2) by simp
    from to_double_above(1) [OF round_double_0 z this] show ?thesis .
  next
    case False
    then have "d * 1 \<le> d * c" using assms(3) by (intro mult_left_mono_neg) simp_all
    then have "d \<le> d * c" by simp
    from to_double_above(1) [OF dd lo this] show ?thesis .
  qed
qed

lemma resolved_start:
  assumes "is_jsnum duration"
      and "resolve_range r duration = (startTime, endTime)"
  shows "is_jsnum startTime" and "startTime = NInf \<Longrightarrow> \<not> jlt startTime endTime"
proof -
  have z: "is_jsnum (Fin 0)" by (simp add: is_jsnum_def)
  have m: "is_jsnum (jmul duration (Fin c))" if "0 < c" for c
    using that by (cases duration) (simp_all add: to_double_is_jsnum, simp_all add: is_jsnum_def)
  have h: "is_jsnum (jdiv2 duration)"
    by (cases duration) (simp_all add: jdiv2_def to_double_is_jsnum, simp_all add: is_jsnum_def)
  show "is_jsnum startTime"
    using assms(2) z h m [of "1 / 4"] m [of "1 / 2"] m [of "3 / 4"]
    by (cases r) (auto simp add: resolve_range_def)
  show "\<not> jlt startTime endTime" if s: "startTime = NInf"
  proof (cases duration)
    case (Fin d)
    have a: "jmul duration (Fin c) \<noteq> NInf" if "0 \<le> c" "c \<le> 1" for c
      using scaled_not_NInf [OF assms(1) [unfolded Fin] that] by (simp add: Fin)
    have b: "jdiv2 duration \<noteq> NInf"
      using scaled_not_NInf [OF assms(1) [unfolded Fin], of "1 / 2"] by (simp add: Fin jdiv2_def)
    show ?thesis
      using assms(2) s a [of "1 / 4"] a [of "1 / 2"] a [of "3 / 4"] b
      by (cases r) (auto simp add: resolve_range_def)
  next
    case PInf
    then show ?thesis using assms(2) s by (cases r) (auto simp add: resolve_range_def jdiv2_def)
  next
    case NInf
    then show ?thesis using assms(2) s by (cases r) (auto simp add: resolve_range_def jdiv2_def)
  next
    case NaN
    then show ?thesis using assms(2) s by (cases r) (auto simp add: resolve_range_def jdiv2_def)
  qed
qed

text \<open>
  Counterexample to C7 as stated. A video of 4.2 seconds (the double nearest to 4.2),
  second half, interval 1: the scan samples at the doubles 2.1, 3.1 and 4.1, and the last
  two differ by \<open>1 - 2^-51\<close>, not by 1.
\<close>

theorem sampled_spacing_counterexample:
  "is_jsnum (Fin double_4_2)
   \<and> to_double (21 / 5) = Fin double_4_2
   \<and> map timestamp (startExtraction True None example_uuid example_capture (Fin double_4_2)
        second_half_by_1 []) = [double_2_1, double_3_1, double_4_1]
   \<and> double_4_1 - double_3_1 = 1 - 1 / 2 ^ 51
   \<and> double_4_1 - double_3_1 \<noteq> max 1 1"
proof -
  have "double_4_1 - double_3_1 = 1 - 1 / 2 ^ 51"
    by (simp add: double_4_1_def double_3_1_def)
  moreover have "(1 :: rat) - 1 / 2 ^ 51 \<noteq> max 1 1" by simp
  ultimately show ?thesis
    using double_4_2_is_jsnum double_4_2_nearest scan_of_4_2 by (simp only:) simp
qed

text \<open>
  C7 (amended). For every ScanSettings and every video duration that is a double (NaN and
  the infinities included), with the range resolved in double arithmetic (full
  \<open>[0, d)\<close>, halves \<open>[0, d/2)\<close> and \<open>[d/2, d)\<close>, quarters \<open>[0, .25d)\<close>,
  \<open>[.25d, .5d)\<close>, \<open>[.5d, .75d)\<close>, \<open>[.75d, d)\<close>): the timestamps of the frames a scan
  appends all lie within \<open>[startTime, endTime)\<close>; the first is \<open>startTime\<close> and each
  next one is the double sum of its predecessor and \<open>max(1, interval)\<close>, so that
  consecutive timestamps differ by \<open>max(1, interval)\<close> up to the rounding of one
  addition; there are at most 50 of them, and none when \<open>endTime <= startTime\<close>. A scan
  that returns early appends nothing.
\<close>

theorem sampled_timestamps_within_range:
  assumes "is_jsnum duration"
      and "startTime =
             (case scan_range scanSettings of
                Full \<Rightarrow> Fin 0 | First_half \<Rightarrow> Fin 0 | Second_half \<Rightarrow> jdiv2 duration
              | Q1 \<Rightarrow> Fin 0 | Q2 \<Rightarrow> jmul duration (Fin (1 / 4))
              | Q3 \<Rightarrow> jmul duration (Fin (1 / 2)) | Q4 \<Rightarrow> jmul duration (Fin (3 / 4)))"
      and "endTime =
             (case scan_range scanSettings of
                Full \<Rightarrow> duration | First_half \<Rightarrow> jdiv2 duration | Second_half \<Rightarrow> duration
              | Q1 \<Rightarrow> jmul duration (Fin (1 / 4)) | Q2 \<Rightarrow> jmul duration (Fin (1 / 2))
              | Q3 \<Rightarrow> jmul duration (Fin (3 / 4)) | Q4 \<Rightarrow> duration)"
      and "ts = map timestamp (drop (length frames)
                  (startExtraction ready videoUrl uuid capture duration scanSettings frames))"
  shows "(\<forall>t\<in>set ts. jle startTime (Fin t) \<and> jlt (Fin t) endTime)
       \<and> (ts \<noteq> [] \<longrightarrow> Fin (hd ts) = startTime)
       \<and> (\<forall>i. Suc i < length ts \<longrightarrow>
              Fin (ts ! Suc i) = jadd (Fin (ts ! i)) (Math_max (Fin 1) (interval scanSettings)))
       \<and> length ts \<le> 50
       \<and> (jle endTime startTime \<longrightarrow> ts = [])"
proof -
  have r: "resolve_range (scan_range scanSettings) duration = (startTime, endTime)"
    unfolding assms(2,3) by (cases "scan_range scanSettings") (simp_all add: resolve_range_def)
  define ival where "ival = Math_max (Fin 1) (interval scanSettings)"
  have iv: "ival = NaN \<or> ival = PInf \<or> (\<exists>v. ival = Fin v \<and> 1 \<le> v)"
    unfolding ival_def by (rule Math_max_one)
  show ?thesis
  proof (cases "ready \<and> videoUrl \<noteq> Some ''restored''")
    case False
    then have "startExtraction ready videoUrl uuid capture duration scanSettings frames = frames"
      by (auto simp add: startExtraction_def)
    then show ?thesis using assms(4) by simp
  next
    case True
    then have se: "startExtraction ready videoUrl uuid capture duration scanSettings frames
                     = scan_loop uuid capture endTime ival startTime 0 frames"
      by (simp add: startExtraction_def r ival_def)
    show ?thesis
    proof (cases "startTime = NInf")
      case True
      from resolved_start(2) [OF assms(1) r True] have "\<not> jlt startTime endTime" .
      then have "scan_loop uuid capture endTime ival startTime 0 frames = frames"
        by (subst scan_loop.simps) simp
      then show ?thesis using assms(4) se by simp
    next
      case False
      from scan_loop_appends [OF iv resolved_start(1) [OF assms(1) r] False,
          of uuid capture endTime 0 frames]
      obtain new where
        eq: "scan_loop uuid capture endTime ival startTime 0 frames = frames @ new"
        and len: "length new \<le> maxFrames - 0"
        and rng: "\<forall>x\<in>set new. jle startTime (Fin (timestamp x)) \<and> jlt (Fin (timestamp x)) endTime"
        and first: "new \<noteq> [] \<longrightarrow> Fin (timestamp (hd new)) = startTime"
        and step: "\<forall>i. Suc i < length new \<longrightarrow>
                     Fin (timestamp (new ! Suc i)) = jadd (Fin (timestamp (new ! i))) ival"
        and emp: "\<not> jlt startTime endTime \<longrightarrow> new = []"
        by blast
      have ts: "ts = map timestamp new" using assms(4) se eq by simp
      have t1: "\<forall>t\<in>set ts. jle startTime (Fin t) \<and> jlt (Fin t) endTime"
        unfolding ts using rng by simp
      have t2: "\<forall>i. Suc i < length ts \<longrightarrow> Fin (ts ! Suc i) = jadd (Fin (ts ! i)) ival"
        unfolding ts using step by simp
      have t3: "length ts \<le> 50" unfolding ts using len by (simp add: maxFrames_def)
      have t5: "ts \<noteq> [] \<longrightarrow> Fin (hd ts) = startTime"
        unfolding ts using first by (simp add: hd_map)
      have t4: "jle endTime startTime \<longrightarrow> ts = []"
        unfolding ts using emp jle_not_jlt by auto
      show ?thesis using t1 t2 t3 t4 t5 unfolding ival_def by blast
    qed
  qed
qed

theorem sampled_timestamps_within_range_witness:
  "is_jsnum (Fin double_4_2)
   \<and> map timestamp (startExtraction True None example_uuid example_capture (Fin double_4_2)
        second_half_by_1 []) = [double_2_1, double_3_1, double_4_1]
   \<and> jle (jdiv2 (Fin double_4_2)) (Fin double_2_1) \<and> jlt (Fin double_4_1) (Fin double_4_2)
   \<and> Fin double_2_1 = jdiv2 (Fin double_4_2)
   \<and> Fin double_3_1 = jadd (Fin double_2_1) (Math_max (Fin 1) (Fin 1))
   \<and> Fin double_4_1 = jadd (Fin double_3_1) (Math_max (Fin 1) (Fin 1))
   \<and> length [double_2_1, double_3_1, double_4_1] \<le> 50
   \<and> is_jsnum (Fin 0)
   \<and> jle (jmul (Fin 0) (Fin (3 / 4))) (jmul (Fin 0) (Fin (1 / 2)))
   \<and> map timestamp (startExtraction True None example_uuid example_capture (Fin 0)
        third_quarter_by_1 []) = []"
proof -
  have s: "scan_range second_half_by_1 = Second_half" "interval second_half_by_1 = Fin 1"
    by (simp_all add: second_half_by_1_def)
  have q: "scan_range third_quarter_by_1 = Q3" by (simp add: third_quarter_by_1_def)
  have a2: "jdiv2 (Fin double_4_2) = (case scan_range second_half_by_1 of
                Full \<Rightarrow> Fin 0 | First_half \<Rightarrow> Fin 0 | Second_half \<Rightarrow> jdiv2 (Fin double_4_2)
              | Q1 \<Rightarrow> Fin 0 | Q2 \<Rightarrow> jmul (Fin double_4_2) (Fin (1 / 4))
              | Q3 \<Rightarrow> jmul (Fin double_4_2) (Fin (1 / 2)) | Q4 \<Rightarrow> jmul (Fin double_4_2) (Fin (3 / 4)))"
    by (simp only: s ScanRange.case)
  have a3: "Fin double_4_2 = (case scan_range second_half_by_1 of
                Full \<Rightarrow> Fin double_4_2 | First_half \<Rightarrow> jdiv2 (Fin double_4_2) | Second_half \<Rightarrow> Fin double_4_2
              | Q1 \<Rightarrow> jmul (Fin double_4_2) (Fin (1 / 4)) | Q2 \<Rightarrow> jmul (Fin double_4_2) (Fin (1 / 2))
              | Q3 \<Rightarrow> jmul (Fin double_4_2) (Fin (3 / 4)) | Q4 \<Rightarrow> Fin double_4_2)"
    by (simp only: s ScanRange.case)
  have a4: "[double_2_1, double_3_1, double_4_1] = map timestamp (drop (length [])
              (startExtraction True None example_uuid example_capture (Fin double_4_2) second_half_by_1 []))"
    by (simp add: scan_of_4_2)
  note w = sampled_timestamps_within_range [OF double_4_2_is_jsnum a2 a3 a4]
  have z: "is_jsnum (Fin 0)" by (simp add: is_jsnum_def)
  have b2: "jmul (Fin 0) (Fin (1 / 2)) = (case scan_range third_quarter_by_1 of
                Full \<Rightarrow> Fin 0 | First_half \<Rightarrow> Fin 0 | Second_half \<Rightarrow> jdiv2 (Fin 0)
              | Q1 \<Rightarrow> Fin 0 | Q2 \<Rightarrow> jmul (Fin 0) (Fin (1 / 4))
              | Q3 \<Rightarrow> jmul (Fin 0) (Fin (1 / 2)) | Q4 \<Rightarrow> jmul (Fin 0) (Fin (3 / 4)))"
    by (simp only: q ScanRange.case)
  have b3: "jmul (Fin 0) (Fin (3 / 4)) = (case scan_range third_quarter_by_1 of
                Full \<Rightarrow> Fin 0 | First_half \<Rightarrow> jdiv2 (Fin 0) | Second_half \<Rightarrow> Fin 0
              | Q1 \<Rightarrow> jmul (Fin 0) (Fin (1 / 4)) | Q2 \<Rightarrow> jmul (Fin 0) (Fin (1 / 2))
              | Q3 \<Rightarrow> jmul (Fin 0) (Fin (3 / 4)) | Q4 \<Rightarrow> Fin 0)"
    by (simp only: q ScanRange.case)
  have e0: "jle (jmul (Fin 0) (Fin (3 / 4))) (jmul (Fin 0) (Fin (1 / 2)))" by simp
  note v = sampled_timestamps_within_range [OF z b2 b3 refl,
      of "[]" True None example_uuid example_capture]
  have empty: "map timestamp (startExtraction True None example_uuid example_capture (Fin 0)
        third_quarter_by_1 []) = []"
    using v e0 by simp
  have c1: "\<forall>t\<in>set [double_2_1, double_3_1, double_4_1].
              jle (jdiv2 (Fin double_4_2)) (Fin t) \<and> jlt (Fin t) (Fin double_4_2)"
    using w by blast
  have in1: "jle (jdiv2 (Fin double_4_2)) (Fin double_2_1)" using c1 by simp
  have in2: "jlt (Fin double_4_1) (Fin double_4_2)" using c1 by simp
  have "[double_2_1, double_3_1, double_4_1] \<noteq> []
          \<longrightarrow> Fin (hd [double_2_1, double_3_1, double_4_1]) = jdiv2 (Fin double_4_2)"
    using w by blast
  then have in0: "Fin double_2_1 = jdiv2 (Fin double_4_2)" by simp
  have st: "\<forall>i. Suc i < length [double_2_1, double_3_1, double_4_1] \<longrightarrow>
              Fin ([double_2_1, double_3_1, double_4_1] ! Suc i)
                = jadd (Fin ([double_2_1, double_3_1, double_4_1] ! i)) (Math_max (Fin 1) (Fin 1))"
    using w unfolding s by blast
  have st0: "Fin double_3_1 = jadd (Fin double_2_1) (Math_max (Fin 1) (Fin 1))"
    using st [rule_format, of 0] by simp
  have st1: "Fin double_4_1 = jadd (Fin double_3_1) (Math_max (Fin 1) (Fin 1))"
    using st [rule_format, of "Suc 0"] by simp
  show ?thesis
    using double_4_2_is_jsnum scan_of_4_2 in0 in1 in2 st0 st1 z e0 empty by simp
qed

subsection \<open>Export\<close>

lemma fold_file_dom:
  "dom (fold (\<lambda>(name, data) folder. folder(name \<mapsto> data)) ws m) = dom m \<union> fst ` set ws"
  by (induction ws arbitrary: m) auto

lemma manifest_entry_ungraded:
  "analysis k = None \<Longrightarrow>
   stringify_entry (manifest_entry k)
     = [(''id'', JString (frame_id k)), (''timestamp'', JNumber (timestamp k)),
        (''isEnhanced'', JBool (has_enhanced k))]"
  by (simp add: stringify_entry_def manifest_entry_def opt_field_def)

lemma manifest_entry_graded:
  "analysis k = Some a \<Longrightarrow> quality a = Some q \<Longrightarrow> shotType a = Some st \<Longrightarrow>
   stringify_entry (manifest_entry k)
     = [(''id'', JString (frame_id k)), (''timestamp'', JNumber (timestamp k)),
        (''quality'', JString (FrameQuality_str q)), (''score'', JNumber (compositionScore a)),
        (''tags'', JStringList (tags a)), (''advice'', JString (technicalAdvice a)),
        (''people'', JStringList (people a)), (''shotType'', JString (ShotType_str st)),
        (''isEnhanced'', JBool (has_enhanced k))]"
  by (simp add: stringify_entry_def manifest_entry_def opt_field_def opt_str_def)

text \<open>
  Counterexample to C8 as stated. The manifest entry of an analysed keeper has the keys
  \<open>score\<close> and \<open>advice\<close>, not \<open>compositionScore\<close> and \<open>technicalAdvice\<close>; and the entry
  written for a keeper without analysis has three keys only.
\<close>

theorem export_field_names_counterexample:
  "set (map fst (hd (manifest_json (exportProjectToZip example_numToString [enhanced_frame]))))
     \<noteq> {''id'', ''timestamp'', ''quality'', ''compositionScore'', ''tags'', ''technicalAdvice'',
         ''people'', ''shotType'', ''isEnhanced''}
   \<and> map fst (hd (manifest_json (exportProjectToZip example_numToString [unanalysed_keeper])))
     = [''id'', ''timestamp'', ''isEnhanced'']"
proof -
  have a: "map fst (hd (manifest_json (exportProjectToZip example_numToString [enhanced_frame])))
     = [''id'', ''timestamp'', ''quality'', ''score'', ''tags'', ''advice'', ''people'', ''shotType'', ''isEnhanced'']"
    by (simp add: exportProjectToZip_def enhanced_frame_def manifest_entry_def stringify_entry_def
        opt_field_def opt_str_def analysis_of_json_def good_json_def)
  have b: "map fst (hd (manifest_json (exportProjectToZip example_numToString [unanalysed_keeper])))
     = [''id'', ''timestamp'', ''isEnhanced'']"
    by (simp add: exportProjectToZip_def unanalysed_keeper_def pending_frame_def manifest_entry_def
        stringify_entry_def opt_field_def)
  have "''score'' \<in> set (map fst (hd (manifest_json (exportProjectToZip example_numToString [enhanced_frame]))))"
    unfolding a by simp
  moreover have "''score'' \<notin> {''id'', ''timestamp'', ''quality'', ''compositionScore'', ''tags'', ''technicalAdvice'',
         ''people'', ''shotType'', ''isEnhanced''}"
    by simp
  ultimately show ?thesis using b by metis
qed

text \<open>
  C8 (amended). Exporting writes one manifest entry per keeper, in store order. For a
  keeper whose analysis has a quality and a shot type the entry has exactly the keys
  \<open>id\<close>, \<open>timestamp\<close>, \<open>quality\<close>, \<open>score\<close> (the composition score), \<open>tags\<close>,
  \<open>advice\<close> (the technical advice), \<open>people\<close>, \<open>shotType\<close>, \<open>isEnhanced\<close>; for a keeper
  without analysis it has \<open>id\<close>, \<open>timestamp\<close> and \<open>isEnhanced\<close> only. For each keeper, in
  order, one image is written under the name
  \<open>frame_<timestamp with 2 decimals>s_<quality or "ungraded">.png\<close>, its payload the
  enhanced image when present and otherwise the original, without the data-URL header,
  and the folder holds a file of that name afterwards.
\<close>

theorem export_manifest_and_files:
  assumes "keepers = filter isSelected frames"
      and "z = exportProjectToZip numToString frames"
      and "i < length keepers"
      and "k = keepers ! i"
  shows "length (manifest_json z) = length keepers
       \<and> length (image_writes z) = length keepers
       \<and> (analysis k = None \<longrightarrow>
            manifest_json z ! i
              = [(''id'', JString (frame_id k)), (''timestamp'', JNumber (timestamp k)),
                 (''isEnhanced'', JBool (enhancedUrl k \<noteq> None \<and> enhancedUrl k \<noteq> Some []))])
       \<and> (\<forall>a q st. analysis k = Some a \<and> quality a = Some q \<and> shotType a = Some st \<longrightarrow>
            manifest_json z ! i
              = [(''id'', JString (frame_id k)), (''timestamp'', JNumber (timestamp k)),
                 (''quality'', JString (FrameQuality_str q)), (''score'', JNumber (compositionScore a)),
                 (''tags'', JStringList (tags a)), (''advice'', JString (technicalAdvice a)),
                 (''people'', JStringList (people a)), (''shotType'', JString (ShotType_str st)),
                 (''isEnhanced'', JBool (enhancedUrl k \<noteq> None \<and> enhancedUrl k \<noteq> Some []))])
       \<and> fst (image_writes z ! i)
            = ''frame_'' @ toFixed2 numToString (timestamp k) @ ''s_''
              @ (case analysis k of None \<Rightarrow> ''ungraded''
                 | Some a \<Rightarrow> (case quality a of None \<Rightarrow> ''ungraded'' | Some q \<Rightarrow> FrameQuality_str q))
              @ ''.png''
       \<and> snd (image_writes z ! i)
            = stripDataUrlHeader
                (case enhancedUrl k of None \<Rightarrow> imageUrl k | Some u \<Rightarrow> if u = [] then imageUrl k else u)
       \<and> image_files z (fst (image_writes z ! i)) \<noteq> None"
proof -
  have he: "has_enhanced k \<longleftrightarrow> enhancedUrl k \<noteq> None \<and> enhancedUrl k \<noteq> Some []"
    by (simp add: has_enhanced_def split: option.splits)
  have m: "manifest_json z = map (\<lambda>f. stringify_entry (manifest_entry f)) keepers"
    using assms(1,2) by (simp add: exportProjectToZip_def Let_def)
  have w: "image_writes z = map (\<lambda>frame. (filename numToString frame, base64Data frame)) keepers"
    using assms(1,2) by (simp add: exportProjectToZip_def Let_def)
  have f: "dom (image_files z) = fst ` set (image_writes z)"
    using assms(1,2) by (simp add: exportProjectToZip_def Let_def fold_file_dom)
  have mi: "manifest_json z ! i = stringify_entry (manifest_entry k)"
    using m assms(3,4) by simp
  have wi: "image_writes z ! i = (filename numToString k, base64Data k)"
    using w assms(3,4) by simp
  have c1: "length (manifest_json z) = length keepers" using m by simp
  have c2: "length (image_writes z) = length keepers" using w by simp
  have c3: "analysis k = None \<longrightarrow>
            manifest_json z ! i
              = [(''id'', JString (frame_id k)), (''timestamp'', JNumber (timestamp k)),
                 (''isEnhanced'', JBool (enhancedUrl k \<noteq> None \<and> enhancedUrl k \<noteq> Some []))]"
    using mi he by (simp add: manifest_entry_ungraded)
  have c4: "\<forall>a q st. analysis k = Some a \<and> quality a = Some q \<and> shotType a = Some st \<longrightarrow>
            manifest_json z ! i
              = [(''id'', JString (frame_id k)), (''timestamp'', JNumber (timestamp k)),
                 (''quality'', JString (FrameQuality_str q)), (''score'', JNumber (compositionScore a)),
                 (''tags'', JStringList (tags a)), (''advice'', JString (technicalAdvice a)),
                 (''people'', JStringList (people a)), (''shotType'', JString (ShotType_str st)),
                 (''isEnhanced'', JBool (enhancedUrl k \<noteq> None \<and> enhancedUrl k \<noteq> Some []))]"
    using mi he by (simp add: manifest_entry_graded)
  have c5: "fst (image_writes z ! i)
            = ''frame_'' @ toFixed2 numToString (timestamp k) @ ''s_''
              @ (case analysis k of None \<Rightarrow> ''ungraded''
                 | Some a \<Rightarrow> (case quality a of None \<Rightarrow> ''ungraded'' | Some q \<Rightarrow> FrameQuality_str q))
              @ ''.png''"
    using wi by (simp add: filename_def quality_or_ungraded_def)
  have c6: "snd (image_writes z ! i)
            = stripDataUrlHeader
                (case enhancedUrl k of None \<Rightarrow> imageUrl k | Some u \<Rightarrow> if u = [] then imageUrl k else u)"
    using wi by (simp add: base64Data_def imageData_def)
  have "fst (image_writes z ! i) \<in> fst ` set (image_writes z)"
    using c2 assms(3) by (metis imageI nth_mem)
  with f have c7: "image_files z (fst (image_writes z ! i)) \<noteq> None" by blast
  from c1 c2 c3 c4 c5 c6 c7 show ?thesis by blast
qed

theorem export_manifest_and_files_witness:
  "filter isSelected example_store = [enhanced_frame, unanalysed_keeper]
   \<and> manifest_json (exportProjectToZip example_numToString example_store)
       = [[(''id'', JString ''c''), (''timestamp'', JNumber 6), (''quality'', JString ''Good''),
           (''score'', JNumber 7), (''tags'', JStringList [''Beach'']),
           (''advice'', JString ''Crop tighter.''), (''people'', JStringList []),
           (''shotType'', JString ''Pose''), (''isEnhanced'', JBool True)],
          [(''id'', JString ''a''), (''timestamp'', JNumber 0), (''isEnhanced'', JBool False)]]
   \<and> image_writes (exportProjectToZip example_numToString example_store)
       = [(''frame_6.00s_Good.png'', ''OLD''), (''frame_0.00s_ungraded.png'', ''AAAA'')]
   \<and> image_files (exportProjectToZip example_numToString example_store) ''frame_6.00s_Good.png'' \<noteq> None
   \<and> image_files (exportProjectToZip example_numToString example_store) ''frame_0.00s_ungraded.png'' \<noteq> None"
proof -
  define z where "z = exportProjectToZip example_numToString example_store"
  have k: "[enhanced_frame, unanalysed_keeper] = filter isSelected example_store"
    by (simp add: example_store_def enhanced_frame_def unanalysed_keeper_def other_frame_def pending_frame_def)
  have t0: "toFixed2 example_numToString 0 = ''0.00''" by code_simp
  have t6: "toFixed2 example_numToString 6 = ''6.00''" by code_simp
  have i0: "0 < length [enhanced_frame, unanalysed_keeper]" by simp
  have i1: "1 < length [enhanced_frame, unanalysed_keeper]" by simp
  have a0: "analysis enhanced_frame = Some (analysis_of_json good_json)
            \<and> quality (analysis_of_json good_json) = Some GOOD
            \<and> shotType (analysis_of_json good_json) = Some POSE"
    by (simp add: enhanced_frame_def analysis_of_json_def good_json_def)
  have a1: "analysis unanalysed_keeper = None"
    by (simp add: unanalysed_keeper_def pending_frame_def)
  have len: "length (manifest_json z) = 2 \<and> length (image_writes z) = 2"
    using export_manifest_and_files [OF k z_def i0 refl] by simp
  have e0: "enhanced_frame = [enhanced_frame, unanalysed_keeper] ! 0" by simp
  have e1: "unanalysed_keeper = [enhanced_frame, unanalysed_keeper] ! 1" by simp
  note w0 = export_manifest_and_files [OF k z_def i0 e0]
  note w1 = export_manifest_and_files [OF k z_def i1 e1]
  have m0: "manifest_json z ! 0 = [(''id'', JString ''c''), (''timestamp'', JNumber 6), (''quality'', JString ''Good''),
           (''score'', JNumber 7), (''tags'', JStringList [''Beach'']),
           (''advice'', JString ''Crop tighter.''), (''people'', JStringList []),
           (''shotType'', JString ''Pose''), (''isEnhanced'', JBool True)]"
    using w0 a0 by (simp add: enhanced_frame_def analysis_of_json_def good_json_def)
  have m1: "manifest_json z ! 1 = [(''id'', JString ''a''), (''timestamp'', JNumber 0), (''isEnhanced'', JBool False)]"
    using w1 a1 by (simp add: unanalysed_keeper_def pending_frame_def)
  have f0: "image_writes z ! 0 = (''frame_6.00s_Good.png'', ''OLD'')"
    using w0 by (simp add: prod_eq_iff enhanced_frame_def analysis_of_json_def good_json_def t6 stripDataUrlHeader_def)
  have f1: "image_writes z ! 1 = (''frame_0.00s_ungraded.png'', ''AAAA'')"
    using w1 by (simp add: prod_eq_iff unanalysed_keeper_def pending_frame_def t0 stripDataUrlHeader_def)
  have d0: "image_files z (fst (image_writes z ! 0)) \<noteq> None" using w0 by blast
  have d1: "image_files z (fst (image_writes z ! 1)) \<noteq> None" using w1 by blast
  have two: "\<And>xs a b. length xs = 2 \<Longrightarrow> xs ! 0 = a \<Longrightarrow> xs ! 1 = b \<Longrightarrow> xs = [a, b]"
    by (metis One_nat_def Suc_1 length_0_conv length_Suc_conv nth_Cons_0 nth_Cons_Suc)
  have M: "manifest_json z = [manifest_json z ! 0, manifest_json z ! 1]"
    using len by (intro two) simp_all
  have W: "image_writes z = [image_writes z ! 0, image_writes z ! 1]"
    using len by (intro two) simp_all
  show ?thesis
    using k M W m0 m1 f0 f1 d0 d1 unfolding z_def by simp
qed

text \<open>
  Two keepers can share a file name: a frame enhanced once and the version saved from it
  have the same timestamp and the quality Excellent, so the second write replaces the
  first and the folder holds one image for the two keepers.
\<close>

lemma saved_version_same_file_name:
  "length (filter isSelected saved_version_store) = 2
   \<and> map fst (image_writes (exportProjectToZip example_numToString saved_version_store))
       = [''frame_6.00s_Excellent.png'', ''frame_6.00s_Excellent.png'']
   \<and> dom (image_files (exportProjectToZip example_numToString saved_version_store))
       = {''frame_6.00s_Excellent.png''}"
proof -
  have a: "length (filter isSelected saved_version_store) = 2" by code_simp
  have b: "map fst (image_writes (exportProjectToZip example_numToString saved_version_store))
       = [''frame_6.00s_Excellent.png'', ''frame_6.00s_Excellent.png'']" by code_simp
  have "dom (image_files (exportProjectToZip example_numToString saved_version_store))
       = set (map fst (image_writes (exportProjectToZip example_numToString saved_version_store)))"
    by (simp add: exportProjectToZip_def Let_def fold_file_dom image_image)
  with a b show ?thesis by simp
qed

end
